theory Spec2Isabelle
  imports Main "HOL-Library.Sublist" "HOL-Library.AList"
begin

section \<open>Strings\<close>

text \<open>
  The action is TypeScript; its strings are sequences of UTF-16 code units. They are
  modelled as \<^typ>\<open>string\<close>, that is, as the strings all of whose code units lie in
  U+0000..U+00FF, one \<^typ>\<open>char\<close> per code unit. The file paths, identifiers and policy
  markers the action inspects are ASCII.
\<close>

definition is_ws :: "char \<Rightarrow> bool" where
  \<comment> \<open>the WhiteSpace and LineTerminator code points of ECMAScript below U+0100:
      TAB, LF, VT, FF, CR, SP and NBSP; this is what \<open>String.prototype.trim\<close> strips\<close>
  "is_ws c = (c \<in> set [CHR 0x09, CHR 0x0A, CHR 0x0B, CHR 0x0C, CHR 0x0D, CHR 0x20, CHR 0xA0])"

definition trim :: "string \<Rightarrow> string" where
  \<comment> \<open>\<open>s.trim()\<close>\<close>
  "trim s = rev (dropWhile is_ws (rev (dropWhile is_ws s)))"

definition startsWith :: "string \<Rightarrow> string \<Rightarrow> bool" where
  \<comment> \<open>\<open>s.startsWith(p)\<close>\<close>
  "startsWith s p = (take (length p) s = p)"

definition endsWith :: "string \<Rightarrow> string \<Rightarrow> bool" where
  \<comment> \<open>\<open>s.endsWith(p)\<close>\<close>
  "endsWith s p = (length p \<le> length s \<and> drop (length s - length p) s = p)"

fun includes_str :: "string \<Rightarrow> string \<Rightarrow> bool" where
  \<comment> \<open>\<open>s.includes(p)\<close>: \<open>p\<close> occurs at some position of \<open>s\<close>, tried from the left\<close>
  "includes_str [] p = (p = [])"
| "includes_str (c # cs) p = (startsWith (c # cs) p \<or> includes_str cs p)"

fun join :: "string \<Rightarrow> string list \<Rightarrow> string" where
  \<comment> \<open>\<open>xs.join(sep)\<close> on an array of strings\<close>
  "join sep [] = []"
| "join sep [x] = x"
| "join sep (x # y # ys) = x @ sep @ join sep (y # ys)"

section \<open>utils.ts\<close>

subsection \<open>validateXmlContent\<close>

text \<open>
  \<^verbatim>\<open>
  export function validateXmlContent(content: string): boolean {
    if (!content || content.trim().length === 0) { return false }
    const trimmed = content.trim()
    if (!trimmed.startsWith('<') || !trimmed.endsWith('>')) { return false }
    if (!trimmed.includes('<policies>') || !trimmed.includes('</policies>')) { return false }
    return true
  }
  \<close>
  \<open>!content\<close> holds of the empty string only.
\<close>

definition validateXmlContent :: "string \<Rightarrow> bool" where
  "validateXmlContent content =
     (if content = [] \<or> length (trim content) = 0 then False
      else let trimmed = trim content in
        if \<not> startsWith trimmed ''<'' \<or> \<not> endsWith trimmed ''>'' then False
        else if \<not> includes_str trimmed ''<policies>'' \<or> \<not> includes_str trimmed ''</policies>'' then False
        else True)"

subsection \<open>Regular expressions of the path grammar\<close>

text \<open>
  The four path functions are \<open>filePath.match(re)\<close> with these literals:
  \<^verbatim>\<open>
  /policies[/\\]([^/\\]+)[/\\]/                                   extractApiIdFromPath
  /policies[/\\][^/\\]+[/\\]operations[/\\]([^/\\]+)\.xml$/       extractOperationIdFromPath
  /policies[/\\][^/\\]+[/\\]api\.xml$/                            isApiLevelPolicy
  /policies[/\\][^/\\]+[/\\]operations[/\\][^/\\]+\.xml$/         isOperationLevelPolicy
  \<close>
  They are sequences of four kinds of atom: a literal text, one character of a class
  \<open>[...]\<close>, a greedy run \<open>[^...]+\<close> of one or more characters outside a class (capturing
  when parenthesised) and the end-of-input assertion \<open>$\<close> (no \<open>m\<close> flag is set).
\<close>

datatype atom =
    Lit string
  | OneOf "char list"
  | ManyNoneOf "char list" bool
  | Eoi

primrec first_some :: "('a \<Rightarrow> 'b option) \<Rightarrow> 'a list \<Rightarrow> 'b option" where
  "first_some f [] = None"
| "first_some f (x # xs) = (case f x of Some y \<Rightarrow> Some y | None \<Rightarrow> first_some f xs)"

text \<open>
  \<open>match_here re s\<close> matches \<open>re\<close> at the start of \<open>s\<close> the way a backtracking matcher
  does and returns the captured groups. The greedy run first takes every character it
  can and gives them back one at a time while the rest of the expression fails.
\<close>

fun match_here :: "atom list \<Rightarrow> string \<Rightarrow> string list option" where
  "match_here [] s = Some []"
| "match_here (Lit w # re) s =
     (if startsWith s w then match_here re (drop (length w) s) else None)"
| "match_here (OneOf cs # re) s =
     (case s of [] \<Rightarrow> None
      | c # s' \<Rightarrow> if c \<in> set cs then match_here re s' else None)"
| "match_here (ManyNoneOf cs capture # re) s =
     first_some
       (\<lambda>n. case match_here re (drop n s) of
              None \<Rightarrow> None
            | Some groups \<Rightarrow> Some (if capture then take n s # groups else groups))
       (rev [1 ..< Suc (length (takeWhile (\<lambda>c. c \<notin> set cs) s))])"
| "match_here (Eoi # re) s = (if s = [] then match_here re s else None)"

text \<open>
  \<open>s.match(re)\<close> for an expression without the \<open>g\<close> flag: the match at the leftmost
  start position at which there is one (the end of the string is a start position too),
  \<open>null\<close> when there is none.
\<close>

fun regex_match :: "atom list \<Rightarrow> string \<Rightarrow> string list option" where
  "regex_match re [] = match_here re []"
| "regex_match re (c # cs) =
     (case match_here re (c # cs) of
        Some groups \<Rightarrow> Some groups
      | None \<Rightarrow> regex_match re cs)"

definition seps :: "char list" where
  \<comment> \<open>the class \<open>[/\\]\<close>: slash and backslash\<close>
  "seps = [CHR ''/'', CHR 0x5C]"

definition apiIdRe :: "atom list" where
  "apiIdRe = [Lit ''policies'', OneOf seps, ManyNoneOf seps True, OneOf seps]"

definition operationIdRe :: "atom list" where
  "operationIdRe =
     [Lit ''policies'', OneOf seps, ManyNoneOf seps False, OneOf seps,
      Lit ''operations'', OneOf seps, ManyNoneOf seps True, Lit ''.xml'', Eoi]"

definition apiLevelRe :: "atom list" where
  "apiLevelRe =
     [Lit ''policies'', OneOf seps, ManyNoneOf seps False, OneOf seps, Lit ''api.xml'', Eoi]"

definition operationLevelRe :: "atom list" where
  "operationLevelRe =
     [Lit ''policies'', OneOf seps, ManyNoneOf seps False, OneOf seps,
      Lit ''operations'', OneOf seps, ManyNoneOf seps False, Lit ''.xml'', Eoi]"

subsection \<open>The path functions\<close>

text \<open>
  \<^verbatim>\<open>
  export function extractApiIdFromPath(filePath: string): string | null {
    const match = filePath.match(/policies[/\\]([^/\\]+)[/\\]/)
    return match ? match[1] : null
  }
  export function extractOperationIdFromPath(filePath: string): string | null {
    const match = filePath.match(/policies[/\\][^/\\]+[/\\]operations[/\\]([^/\\]+)\.xml$/)
    return match ? match[1] : null
  }
  export function isApiLevelPolicy(filePath: string): boolean {
    return filePath.match(/policies[/\\][^/\\]+[/\\]api\.xml$/) !== null
  }
  export function isOperationLevelPolicy(filePath: string): boolean {
    return filePath.match(/policies[/\\][^/\\]+[/\\]operations[/\\][^/\\]+\.xml$/) !== null
  }
  \<close>
  \<open>match[1]\<close> is the first captured group.
\<close>

definition group1 :: "string list option \<Rightarrow> string option" where
  "group1 m = (case m of None \<Rightarrow> None | Some [] \<Rightarrow> None | Some (g # gs) \<Rightarrow> Some g)"

definition extractApiIdFromPath :: "string \<Rightarrow> string option" where
  "extractApiIdFromPath filePath = group1 (regex_match apiIdRe filePath)"

definition extractOperationIdFromPath :: "string \<Rightarrow> string option" where
  "extractOperationIdFromPath filePath = group1 (regex_match operationIdRe filePath)"

definition isApiLevelPolicy :: "string \<Rightarrow> bool" where
  "isApiLevelPolicy filePath = (regex_match apiLevelRe filePath \<noteq> None)"

definition isOperationLevelPolicy :: "string \<Rightarrow> bool" where
  "isOperationLevelPolicy filePath = (regex_match operationLevelRe filePath \<noteq> None)"


section \<open>types.ts\<close>

datatype scope = Api | Operation

text \<open>
  An optional property (\<open>operationId?: string\<close>) is an \<^typ>\<open>string option\<close>: \<open>None\<close> is
  the absent property, \<open>undefined\<close>.
\<close>

record PolicyFile =
  filePath :: string
  apiId :: string
  operationId :: "string option"
  scope :: scope
  content :: string

record PolicyUpdateResult =
  result_apiId :: string
  result_operationId :: "string option"
  updated :: bool
  etag :: "string option"
  error :: "string option"

record ApimConfig =
  subscriptionId :: string
  resourceGroupName :: string
  serviceName :: string
  policyManifestPath :: "string option"

section \<open>Exceptions and the log\<close>

text \<open>
  A \<open>catch (error)\<close> receives any value. The code asks of it whether it is an instance
  of \<open>Error\<close>, reads its \<open>message\<close>, and in the two write functions follows
  \<open>error.response.data.error.message\<close> and \<open>error.response.data.message\<close>. A thrown value
  is modelled by what these reads see:
  \<^item> \<open>Response d\<close> is a \<open>response\<close> property that is an object; \<open>d\<close> is its \<open>data\<close> when
    that is an object too;
  \<^item> \<open>ResponseData n m\<close>: \<open>n\<close> is \<open>data.error.message\<close> (\<open>None\<close> when \<open>data.error\<close> is
    falsy or has no message), \<open>m\<close> is \<open>data.message\<close>;
  \<^item> \<open>JsError msg r\<close> is an instance of \<open>Error\<close> with message \<open>msg\<close>; \<open>NonError msg r\<close> is
    any other thrown value (a string, a plain object) with the \<open>message\<close> and \<open>response\<close>
    properties it may carry.
\<close>

datatype response_data = ResponseData "string option" "string option"

datatype response = Response "response_data option"

datatype thrown =
    JsError string "response option"
  | NonError "string option" "response option"

definition truthy :: "string option \<Rightarrow> bool" where
  \<comment> \<open>a string-or-undefined value in a condition: \<open>undefined\<close> and \<open>''\<close> are falsy\<close>
  "truthy v = (case v of None \<Rightarrow> False | Some s \<Rightarrow> s \<noteq> [])"

definition errorMessageOf :: "thrown \<Rightarrow> string" where
  \<comment> \<open>\<open>error instanceof Error ? error.message : 'Unknown error'\<close>\<close>
  "errorMessageOf err = (case err of JsError msg r \<Rightarrow> msg | NonError m r \<Rightarrow> ''Unknown error'')"

datatype level = Debug | Info | Warning | Error

text \<open>
  What the action does to the workflow through \<open>@actions/core\<close>: log lines
  (\<open>core.debug\<close>, \<open>core.info\<close>, \<open>core.warning\<close>, \<open>core.error\<close>), \<open>core.setOutput\<close> and
  \<open>core.setFailed\<close>; and, recorded in sequence with them, the calls the orchestrator makes
  on its client and the calls the client makes on the SDK.
\<close>

datatype call =
    TestConnection
  | ListApis
  | ListOperations string
  | UpdateApiPolicy string string
  | UpdateOperationPolicy string "string option" string

text \<open>
  The calls the client makes on the Azure SDK (\<open>ApiManagementClient\<close>):
  \<open>api.listByService\<close>, \<open>apiOperation.listByApi\<close>, \<open>apiPolicy.createOrUpdate\<close>,
  \<open>apiOperationPolicy.createOrUpdate\<close> and \<open>apiManagementService.get\<close>, with the API,
  the operation and the policy text they are given.
\<close>

datatype sdk_call =
    ApiListByService
  | ApiOperationListByApi string
  | ApiPolicyCreateOrUpdate string string
  | ApiOperationPolicyCreateOrUpdate string string string
  | ApiManagementServiceGet

datatype event =
    Log level string
  | SetOutput string string
  | SetFailed string
  | ClientCall call
  | SdkCall sdk_call

fun show_nat :: "nat \<Rightarrow> string" where
  \<comment> \<open>a count interpolated in a template literal: its decimal digits\<close>
  "show_nat n =
     (if n < 10 then [char_of (48 + n)]
      else show_nat (n div 10) @ [char_of (48 + n mod 10)])"

declare show_nat.simps [simp del]

definition show_undefined :: "string option \<Rightarrow> string" where
  \<comment> \<open>a string-or-undefined value interpolated in a template literal\<close>
  "show_undefined v = (case v of None \<Rightarrow> ''undefined'' | Some s \<Rightarrow> s)"

section \<open>policy-discovery.ts\<close>

text \<open>
  The file system and the libraries the discovery reads through, as parameters:
  \<^item> \<open>policyPattern baseDir\<close> is
    \<open>path.join(baseDir, 'policies', '**', '*.xml').replace(/\\/g, '/')\<close>;
  \<^item> \<open>glob pattern baseDir\<close> is \<open>glob(pattern, {cwd: baseDir, ...})\<close>: the paths found, in
    the order the library lists them, or the exception it throws;
  \<^item> \<open>pathResolve\<close> is \<open>path.resolve\<close> on two strings;
  \<^item> \<open>readFile p\<close> is \<open>fs.readFile(p, 'utf-8')\<close>: the text or the exception;
  \<^item> \<open>parseYaml\<close> is the \<open>yaml\<close> parser applied to the manifest text.
  The files do not change while the action runs.
\<close>

text \<open>
  A parsed manifest, as far as the code looks into it. \<open>MissingPolicies\<close> is a document
  that is falsy or whose \<open>policies\<close> is falsy. \<open>Policies es\<close> lists
  \<open>Object.entries(manifest.policies)\<close> in order. The value of an entry is cast, not
  checked, so it may be anything:
  \<^item> \<open>NullEntry err\<close> is a value whose properties cannot be read (\<open>null\<close>); \<open>err\<close> is the
    \<open>TypeError\<close> the read raises;
  \<^item> \<open>Entry p ops\<close> has \<open>apiPolicyPath\<close> \<open>p\<close> (\<open>None\<close> when absent or a falsy value that is
    not a string) and \<open>operations\<close> \<open>ops\<close> (\<open>None\<close> when falsy, else its
    \<open>Object.entries\<close>);
  \<^item> a path is a string, or \<open>NotAString err\<close>: a truthy value of another type, on which
    \<open>path.resolve\<close> raises \<open>err\<close>.
\<close>

datatype pathval = PathString string | NotAString thrown

datatype entry = NullEntry thrown | Entry "pathval option" "(string \<times> pathval) list option"

datatype manifest_doc = MissingPolicies | Policies "(string \<times> entry) list"

record env =
  policyPattern :: "string \<Rightarrow> string"
  glob :: "string \<Rightarrow> string \<Rightarrow> thrown + string list"
  pathResolve :: "string \<Rightarrow> string \<Rightarrow> string"
  readFile :: "string \<Rightarrow> thrown + string"
  parseYaml :: "string \<Rightarrow> thrown + manifest_doc"

subsection \<open>discoverPoliciesFromDefaultStructure\<close>

text \<open>
  The body of \<open>for (const filePath of policyFiles)\<close> (lines 38 to 94): the policies it
  pushes (none or one) and the lines it logs. Every \<open>continue\<close> and the \<open>catch\<close> of the
  read are branches.
\<close>

definition discoverFile :: "env \<Rightarrow> string \<Rightarrow> string \<Rightarrow> PolicyFile list \<times> event list" where
  "discoverFile e baseDir path =
     (let absolutePath = pathResolve e baseDir path in
      case readFile e absolutePath of
        Inl err \<Rightarrow>
          ([], [Log Warning (''Failed to process policy file '' @ path @ '': '' @ errorMessageOf err)])
      | Inr text \<Rightarrow>
          if \<not> validateXmlContent text then
            ([], [Log Warning (''Skipping invalid XML file: '' @ path)])
          else let aid = extractApiIdFromPath path in
          if \<not> truthy aid then
            ([], [Log Warning (''Cannot extract API ID from path: '' @ path)])
          else if isApiLevelPolicy path then
            ([\<lparr>filePath = absolutePath, apiId = the aid, operationId = None,
               scope = Api, content = text\<rparr>],
             [Log Debug (''Added policy: '' @ the aid @ ''/'' @ ''api'' @ '' from '' @ path)])
          else if isOperationLevelPolicy path then
            (let extractedOperationId = extractOperationIdFromPath path in
             if \<not> truthy extractedOperationId then
               ([], [Log Warning (''Cannot extract operation ID from path: '' @ path)])
             else
               ([\<lparr>filePath = absolutePath, apiId = the aid,
                  operationId = extractedOperationId, scope = Operation, content = text\<rparr>],
                [Log Debug (''Added policy: '' @ the aid @ ''/'' @ the extractedOperationId
                            @ '' from '' @ path)]))
          else
            ([], [Log Warning (''Unknown policy scope for file: '' @ path)]))"

fun discoverFiles :: "env \<Rightarrow> string \<Rightarrow> string list \<Rightarrow> PolicyFile list \<times> event list" where
  "discoverFiles e baseDir [] = ([], [])"
| "discoverFiles e baseDir (path # paths) =
     (let (found, lines) = discoverFile e baseDir path;
          (found', lines') = discoverFiles e baseDir paths
      in (found @ found', lines @ lines'))"

definition discoverPoliciesFromDefaultStructure ::
  "env \<Rightarrow> string \<Rightarrow> PolicyFile list \<times> event list" where
  "discoverPoliciesFromDefaultStructure e baseDir =
     (let pattern = policyPattern e baseDir;
          line1 = Log Debug (''Searching for policy files with pattern: '' @ pattern) in
      case glob e pattern baseDir of
        Inl err \<Rightarrow>
          ([], [line1, Log Error (''Failed to discover policies from default structure: ''
                                   @ errorMessageOf err)])
      | Inr policyFiles \<Rightarrow>
          (let (found, lines) = discoverFiles e baseDir policyFiles in
           (found,
            [line1, Log Info (''Found '' @ show_nat (length policyFiles)
                              @ '' potential policy files'')] @ lines)))"

subsection \<open>loadPolicyManifest and discoverPoliciesFromManifest\<close>

definition loadPolicyManifest ::
  "env \<Rightarrow> string \<Rightarrow> (string \<times> entry) list option \<times> event list" where
  "loadPolicyManifest e manifestPath =
     (let line1 = Log Info (''Loading policy manifest from: '' @ manifestPath) in
      case readFile e manifestPath of
        Inl err \<Rightarrow>
          (None, [line1, Log Error (''Failed to load policy manifest: '' @ errorMessageOf err)])
      | Inr manifestContent \<Rightarrow>
          (case parseYaml e manifestContent of
             Inl err \<Rightarrow>
               (None, [line1, Log Error (''Failed to load policy manifest: '' @ errorMessageOf err)])
           | Inr MissingPolicies \<Rightarrow>
               (None, [line1, Log Error ''Invalid manifest format: missing policies section''])
           | Inr (Policies es) \<Rightarrow>
               (Some es, [line1, Log Info (''Loaded manifest with '' @ show_nat (length es)
                                           @ '' API entries'')])))"

text \<open>
  The API-level part of one manifest entry (lines 152 to 178). \<open>path.resolve\<close> is called
  before the inner \<open>try\<close>, so its exception leaves the entry: the third component is
  then the exception, for the \<open>catch\<close> of line 215.
\<close>

definition manifestApiPolicy ::
  "env \<Rightarrow> string \<Rightarrow> string \<Rightarrow> pathval option \<Rightarrow> PolicyFile list \<times> event list \<times> thrown option" where
  "manifestApiPolicy e baseDir aid apiPolicyPath =
     (case apiPolicyPath of
        None \<Rightarrow> ([], [], None)
      | Some (NotAString err) \<Rightarrow> ([], [], Some err)
      | Some (PathString p) \<Rightarrow>
          if p = [] then ([], [], None)
          else let absolutePath = pathResolve e baseDir p in
            (case readFile e absolutePath of
               Inl err \<Rightarrow>
                 ([], [Log Warning (''Failed to read API policy for '' @ aid @ '': ''
                                    @ errorMessageOf err)], None)
             | Inr text \<Rightarrow>
                 if validateXmlContent text then
                   ([\<lparr>filePath = absolutePath, apiId = aid, operationId = None,
                      scope = Api, content = text\<rparr>],
                    [Log Debug (''Added API policy for '' @ aid @ '' from manifest'')], None)
                 else
                   ([], [Log Warning (''Invalid XML content in API policy for '' @ aid @ '': '' @ p)],
                    None)))"

text \<open>The loop over \<open>Object.entries(apiConfig.operations)\<close> (lines 182 to 213).\<close>

fun manifestOperations ::
  "env \<Rightarrow> string \<Rightarrow> string \<Rightarrow> (string \<times> pathval) list
     \<Rightarrow> PolicyFile list \<times> event list \<times> thrown option" where
  "manifestOperations e baseDir aid [] = ([], [], None)"
| "manifestOperations e baseDir aid ((oid, NotAString err) # rest) = ([], [], Some err)"
| "manifestOperations e baseDir aid ((oid, PathString p) # rest) =
     (let absolutePath = pathResolve e baseDir p;
          (found, lines) =
            (case readFile e absolutePath of
               Inl err \<Rightarrow>
                 ([], [Log Warning (''Failed to read operation policy for '' @ aid @ ''/'' @ oid
                                    @ '': '' @ errorMessageOf err)])
             | Inr text \<Rightarrow>
                 if validateXmlContent text then
                   ([\<lparr>filePath = absolutePath, apiId = aid, operationId = Some oid,
                      scope = Operation, content = text\<rparr>],
                    [Log Debug (''Added operation policy for '' @ aid @ ''/'' @ oid
                                @ '' from manifest'')])
                 else
                   ([], [Log Warning (''Invalid XML content in operation policy for '' @ aid
                                      @ ''/'' @ oid @ '': '' @ p)]));
          (found', lines', raised) = manifestOperations e baseDir aid rest
      in (found @ found', lines @ lines', raised))"

text \<open>
  One iteration of \<open>for (const [apiId, apiConfig] of Object.entries(manifest.policies))\<close>
  with its \<open>try\<close>/\<open>catch\<close> (lines 150 to 221). Policies pushed before an exception stay
  in the array.
\<close>

definition manifestEntry ::
  "env \<Rightarrow> string \<Rightarrow> string \<Rightarrow> entry \<Rightarrow> PolicyFile list \<times> event list" where
  "manifestEntry e baseDir aid apiConfig =
     (let failed = (\<lambda>err. Log Warning (''Failed to process API configuration for '' @ aid
                                        @ '': '' @ errorMessageOf err)) in
      case apiConfig of
        NullEntry err \<Rightarrow> ([], [failed err])
      | Entry apiPolicyPath ops \<Rightarrow>
          (case manifestApiPolicy e baseDir aid apiPolicyPath of
             (found, lines, Some err) \<Rightarrow> (found, lines @ [failed err])
           | (found, lines, None) \<Rightarrow>
               (case ops of
                  None \<Rightarrow> (found, lines)
                | Some entries \<Rightarrow>
                    (case manifestOperations e baseDir aid entries of
                       (found', lines', Some err) \<Rightarrow>
                         (found @ found', lines @ lines' @ [failed err])
                     | (found', lines', None) \<Rightarrow> (found @ found', lines @ lines')))))"

fun manifestEntries ::
  "env \<Rightarrow> string \<Rightarrow> (string \<times> entry) list \<Rightarrow> PolicyFile list \<times> event list" where
  "manifestEntries e baseDir [] = ([], [])"
| "manifestEntries e baseDir ((aid, apiConfig) # rest) =
     (let (found, lines) = manifestEntry e baseDir aid apiConfig;
          (found', lines') = manifestEntries e baseDir rest
      in (found @ found', lines @ lines'))"

definition discoverPoliciesFromManifest ::
  "env \<Rightarrow> string \<Rightarrow> string \<Rightarrow> PolicyFile list \<times> event list" where
  "discoverPoliciesFromManifest e manifestPath baseDir =
     (case loadPolicyManifest e manifestPath of
        (None, lines) \<Rightarrow> ([], lines)
      | (Some es, lines) \<Rightarrow>
          (let (found, lines') = manifestEntries e baseDir es in (found, lines @ lines')))"

subsection \<open>discoverPolicies\<close>

definition discoverPolicies ::
  "env \<Rightarrow> string option \<Rightarrow> string \<Rightarrow> PolicyFile list \<times> event list" where
  "discoverPolicies e manifestPath baseDir =
     (if truthy manifestPath then
        (let (found, lines) = discoverPoliciesFromManifest e (the manifestPath) baseDir in
         (found, Log Info ''Using policy manifest for discovery'' # lines))
      else
        (let (found, lines) = discoverPoliciesFromDefaultStructure e baseDir in
         (found, Log Info ''Using default directory structure for discovery'' # lines)))"

subsection \<open>validatePolicies\<close>

text \<open>
  \<open>apiCounts\<close> is a \<open>Map\<close> from apiId to \<open>{api, operations}\<close>. A \<open>Map\<close> iterates in the
  order of first insertion and \<open>set\<close> on a present key keeps its place: an association
  list under \<^const>\<open>AList.update\<close>.
\<close>

record counts =
  api :: nat
  operations :: nat

text \<open>The first loop (lines 256 to 271), threading \<open>apiCounts\<close>, \<open>isValid\<close> and the log.\<close>

fun countPolicies ::
  "PolicyFile list \<Rightarrow> (string \<times> counts) list \<Rightarrow> bool \<Rightarrow> event list
     \<Rightarrow> (string \<times> counts) list \<times> bool \<times> event list" where
  "countPolicies [] apiCounts isValid lines = (apiCounts, isValid, lines)"
| "countPolicies (policy # rest) apiCounts isValid lines =
     (let c = (case map_of apiCounts (apiId policy) of
                 Some c \<Rightarrow> c
               | None \<Rightarrow> \<lparr>api = 0, operations = 0\<rparr>);
          c' = (if scope policy = Api then c\<lparr>api := api c + 1\<rparr>
                else c\<lparr>operations := operations c + 1\<rparr>);
          apiCounts' = AList.update (apiId policy) c' apiCounts
      in if \<not> validateXmlContent (content policy) then
           countPolicies rest apiCounts' False
             (lines @ [Log Error (''Invalid XML content in policy: '' @ filePath policy)])
         else countPolicies rest apiCounts' isValid lines)"

text \<open>The second loop (lines 274 to 283), over \<open>apiCounts.entries()\<close>.\<close>

fun reportCounts ::
  "(string \<times> counts) list \<Rightarrow> bool \<Rightarrow> event list \<Rightarrow> bool \<times> event list" where
  "reportCounts [] isValid lines = (isValid, lines)"
| "reportCounts ((aid, c) # rest) isValid lines =
     (let line = Log Info (''API '' @ aid @ '': '' @ show_nat (api c) @ '' API policy, ''
                           @ show_nat (operations c) @ '' operation policies'')
      in if api c > 1 then
           reportCounts rest False
             (lines @ [line, Log Warning (''Multiple API policies found for '' @ aid)])
         else reportCounts rest isValid (lines @ [line]))"

definition validatePolicies :: "PolicyFile list \<Rightarrow> bool \<times> event list" where
  "validatePolicies policies =
     (if length policies = 0 then (False, [Log Warning ''No policy files discovered''])
      else (case countPolicies policies [] True [] of
              (apiCounts, isValid, lines) \<Rightarrow> reportCounts apiCounts isValid lines))"


section \<open>azure-client.ts\<close>

text \<open>
  The SDK client is a parameter. The service it talks to has a state \<open>'r\<close> that a call
  may read and change; a call returns what the promise resolves to, or the value it
  rejects with. The list calls return the \<open>name\<close> of each item iterated (\<open>None\<close> when the
  item has none), \<open>createOrUpdate\<close> the \<open>eTag\<close> of the contract, \<open>get\<close> the \<open>name\<close> and
  \<open>location\<close> of the service. The arguments are those of the source; the policy id
  \<open>'policy'\<close> and the format \<open>'xml'\<close> are constants and left out.
\<close>

record 'r sdk =
  api_listByService :: "string \<Rightarrow> string \<Rightarrow> 'r \<Rightarrow> (thrown + string option list) \<times> 'r"
  apiOperation_listByApi ::
    "string \<Rightarrow> string \<Rightarrow> string \<Rightarrow> 'r \<Rightarrow> (thrown + string option list) \<times> 'r"
  apiPolicy_createOrUpdate ::
    "string \<Rightarrow> string \<Rightarrow> string \<Rightarrow> string \<Rightarrow> 'r \<Rightarrow> (thrown + string option) \<times> 'r"
  apiOperationPolicy_createOrUpdate ::
    "string \<Rightarrow> string \<Rightarrow> string \<Rightarrow> string \<Rightarrow> string \<Rightarrow> 'r \<Rightarrow> (thrown + string option) \<times> 'r"
  apiManagementService_get ::
    "string \<Rightarrow> string \<Rightarrow> 'r \<Rightarrow> (thrown + string option \<times> string option) \<times> 'r"

text \<open>The world of the client: the service, and what has been logged and called so far.\<close>

record 'r world =
  remote :: 'r
  trace :: "event list"

definition emit :: "event \<Rightarrow> 'r world \<Rightarrow> 'r world" where
  "emit ev w = w\<lparr>trace := trace w @ [ev]\<rparr>"

definition quoted :: "string \<Rightarrow> string" where
  \<comment> \<open>\<open>'${s}'\<close> in a template literal\<close>
  "quoted s = [CHR 0x27] @ s @ [CHR 0x27]"

definition truthy_names :: "string option list \<Rightarrow> string list" where
  \<comment> \<open>\<open>if (x.name) { ids.push(x.name) }\<close> over the items iterated\<close>
  "truthy_names names = map the (filter truthy names)"

subsection \<open>listApis, listOperations, testConnection\<close>

definition listApis :: "'r sdk \<Rightarrow> ApimConfig \<Rightarrow> 'r world \<Rightarrow> string list \<times> 'r world" where
  "listApis s cfg w =
     (let w1 = emit (SdkCall ApiListByService)
                 (emit (Log Debug ''Listing APIs in APIM service...'') w) in
      case api_listByService s (resourceGroupName cfg) (serviceName cfg) (remote w1) of
        (Inl err, r) \<Rightarrow>
          ([], emit (Log Warning (''Failed to list APIs: '' @ errorMessageOf err))
                 (w1\<lparr>remote := r\<rparr>))
      | (Inr names, r) \<Rightarrow>
          (let apiIds = truthy_names names in
           (apiIds,
            emit (Log Debug (''Found '' @ show_nat (length apiIds) @ '' APIs: ''
                             @ join '', '' apiIds))
              (w1\<lparr>remote := r\<rparr>))))"

definition listOperations ::
  "'r sdk \<Rightarrow> ApimConfig \<Rightarrow> string \<Rightarrow> 'r world \<Rightarrow> string list \<times> 'r world" where
  "listOperations s cfg aid w =
     (let w1 = emit (SdkCall (ApiOperationListByApi aid))
                 (emit (Log Debug (''Listing operations for API: '' @ aid)) w) in
      case apiOperation_listByApi s (resourceGroupName cfg) (serviceName cfg) aid (remote w1) of
        (Inl err, r) \<Rightarrow>
          ([], emit (Log Warning (''Failed to list operations for '' @ aid @ '': ''
                                  @ errorMessageOf err))
                 (w1\<lparr>remote := r\<rparr>))
      | (Inr names, r) \<Rightarrow>
          (let operationIds = truthy_names names in
           (operationIds,
            emit (Log Debug (''Found '' @ show_nat (length operationIds) @ '' operations for ''
                             @ aid @ '': '' @ join '', '' operationIds))
              (w1\<lparr>remote := r\<rparr>))))"

definition testConnection :: "'r sdk \<Rightarrow> ApimConfig \<Rightarrow> 'r world \<Rightarrow> bool \<times> 'r world" where
  "testConnection s cfg w =
     (let w1 = emit (SdkCall ApiManagementServiceGet)
                 (emit (Log Info ''Testing Azure connection...'') w) in
      case apiManagementService_get s (resourceGroupName cfg) (serviceName cfg) (remote w1) of
        (Inl err, r) \<Rightarrow>
          (False, emit (Log Error (''Azure connection test failed: '' @ errorMessageOf err))
                    (w1\<lparr>remote := r\<rparr>))
      | (Inr (name, location), r) \<Rightarrow>
          (True,
           emit (Log Debug (''APIM Service: '' @ show_undefined name @ '' (''
                            @ show_undefined location @ '')''))
             (emit (Log Info ''Azure connection test successful'') (w1\<lparr>remote := r\<rparr>))))"

subsection \<open>updateApiPolicyDirect, updateOperationPolicyDirect\<close>

text \<open>
  The message of the \<open>catch\<close> in both write functions (lines 142 to 162 and 202 to 222):
  \<^verbatim>\<open>
  let errorMessage = 'Unknown error'
  if (error instanceof Error) {
    errorMessage = error.message
    if ('response' in error && error.response && typeof error.response === 'object') {
      const response = error.response as any
      if (response.data && typeof response.data === 'object') {
        if (response.data.error && response.data.error.message) {
          errorMessage = response.data.error.message
        } else if (response.data.message) {
          errorMessage = response.data.message
        }
      }
    }
  }
  \<close>
\<close>

definition directErrorMessage :: "thrown \<Rightarrow> string" where
  "directErrorMessage err =
     (case err of
        NonError m r \<Rightarrow> ''Unknown error''
      | JsError msg r \<Rightarrow>
          (case r of
             None \<Rightarrow> msg
           | Some (Response None) \<Rightarrow> msg
           | Some (Response (Some (ResponseData nested plain))) \<Rightarrow>
               if truthy nested then the nested
               else if truthy plain then the plain
               else msg))"

definition or_empty :: "string option \<Rightarrow> string" where
  \<comment> \<open>\<open>result.eTag || ''\<close>\<close>
  "or_empty v = (if truthy v then the v else [])"

definition updateApiPolicyDirect ::
  "'r sdk \<Rightarrow> ApimConfig \<Rightarrow> string \<Rightarrow> string \<Rightarrow> 'r world \<Rightarrow> PolicyUpdateResult \<times> 'r world" where
  "updateApiPolicyDirect s cfg aid policyContent w =
     (let w1 = emit (SdkCall (ApiPolicyCreateOrUpdate aid policyContent)) w in
      case apiPolicy_createOrUpdate s (resourceGroupName cfg) (serviceName cfg) aid
             policyContent (remote w1) of
        (Inr eTag, r) \<Rightarrow>
          (\<lparr>result_apiId = aid, result_operationId = None, updated = True,
            etag = Some (or_empty eTag), error = None\<rparr>,
           w1\<lparr>remote := r\<rparr>)
      | (Inl err, r) \<Rightarrow>
          (let errorMessage = directErrorMessage err in
           (\<lparr>result_apiId = aid, result_operationId = None, updated = False,
             etag = None, error = Some errorMessage\<rparr>,
            emit (Log Error (''Failed to update API policy for '' @ aid @ '': '' @ errorMessage))
              (w1\<lparr>remote := r\<rparr>))))"

definition updateOperationPolicyDirect ::
  "'r sdk \<Rightarrow> ApimConfig \<Rightarrow> string \<Rightarrow> string \<Rightarrow> string \<Rightarrow> 'r world
     \<Rightarrow> PolicyUpdateResult \<times> 'r world" where
  "updateOperationPolicyDirect s cfg aid oid policyContent w =
     (let w1 = emit (SdkCall (ApiOperationPolicyCreateOrUpdate aid oid policyContent)) w in
      case apiOperationPolicy_createOrUpdate s (resourceGroupName cfg) (serviceName cfg) aid oid
             policyContent (remote w1) of
        (Inr eTag, r) \<Rightarrow>
          (\<lparr>result_apiId = aid, result_operationId = Some oid, updated = True,
            etag = Some (or_empty eTag), error = None\<rparr>,
           w1\<lparr>remote := r\<rparr>)
      | (Inl err, r) \<Rightarrow>
          (let errorMessage = directErrorMessage err in
           (\<lparr>result_apiId = aid, result_operationId = Some oid, updated = False,
             etag = None, error = Some errorMessage\<rparr>,
            emit (Log Error (''Failed to update operation policy for '' @ aid @ ''/'' @ oid
                             @ '': '' @ errorMessage))
              (w1\<lparr>remote := r\<rparr>))))"

subsection \<open>updateApiPolicy, updateOperationPolicy\<close>

text \<open>
  Both functions wrap their body in a \<open>try\<close> whose \<open>catch\<close> (lines 45 to 55 and 101 to
  114) returns \<open>updated: false\<close> with the message of the exception. Everything the body
  awaits (\<open>listApis\<close>, \<open>listOperations\<close> and the two direct writes) catches its own
  exceptions, so no exception reaches these handlers and they have no branch here.

  At run time \<open>updateOperationPolicy\<close> may be handed \<open>undefined\<close> for \<open>operationId\<close>
  (the caller asserts it with \<open>!\<close>), hence the \<^typ>\<open>string option\<close>: \<open>undefined\<close> is in no
  list of names.
\<close>

definition updateApiPolicy ::
  "'r sdk \<Rightarrow> ApimConfig \<Rightarrow> string \<Rightarrow> string \<Rightarrow> 'r world \<Rightarrow> PolicyUpdateResult \<times> 'r world" where
  "updateApiPolicy s cfg aid newPolicyContent w =
     (case listApis s cfg w of
        (apis, w1) \<Rightarrow>
          if aid \<notin> set apis then
            (\<lparr>result_apiId = aid, result_operationId = None, updated = False, etag = None,
              error = Some (''API '' @ quoted aid @ '' not found. Available APIs: ''
                            @ join '', '' apis)\<rparr>,
             emit (Log Warning (''API '' @ quoted aid
                                @ '' does not exist in APIM service. Available APIs: ''
                                @ join '', '' apis)) w1)
          else
            updateApiPolicyDirect s cfg aid newPolicyContent
              (emit (Log Info (''Updating API policy for: '' @ aid)) w1))"

definition updateOperationPolicy ::
  "'r sdk \<Rightarrow> ApimConfig \<Rightarrow> string \<Rightarrow> string option \<Rightarrow> string \<Rightarrow> 'r world
     \<Rightarrow> PolicyUpdateResult \<times> 'r world" where
  "updateOperationPolicy s cfg aid oid newPolicyContent w =
     (case listApis s cfg w of
        (apis, w1) \<Rightarrow>
          if aid \<notin> set apis then
            (\<lparr>result_apiId = aid, result_operationId = oid, updated = False, etag = None,
              error = Some (''API '' @ quoted aid @ '' not found. Available APIs: ''
                            @ join '', '' apis)\<rparr>,
             emit (Log Warning (''API '' @ quoted aid
                                @ '' does not exist in APIM service. Available APIs: ''
                                @ join '', '' apis)) w1)
          else
            (case listOperations s cfg aid w1 of
               (ops, w2) \<Rightarrow>
                 if oid \<notin> set (map Some ops) then
                   (\<lparr>result_apiId = aid, result_operationId = oid, updated = False, etag = None,
                     error = Some (''Operation '' @ quoted (show_undefined oid)
                                   @ '' not found in API '' @ quoted aid
                                   @ ''. Available operations: '' @ join '', '' ops)\<rparr>,
                    emit (Log Warning (''Operation '' @ quoted (show_undefined oid)
                                       @ '' does not exist in API '' @ quoted aid
                                       @ ''. Available operations: '' @ join '', '' ops)) w2)
                 else
                   updateOperationPolicyDirect s cfg aid (the oid) newPolicyContent
                     (emit (Log Info (''Updating operation policy for: '' @ aid @ ''/''
                                      @ the oid)) w2)))"

section \<open>main.ts\<close>

text \<open>
  \<open>run\<close> uses its client through five methods. They are taken as a record of functions
  on a client state \<open>'c\<close>, each returning its result or the exception it lets out, so
  that \<open>run\<close> is modelled against any client (the tests replace the class by mocks that
  reject); \<open>AzureApimClient\<close> is the client of the source.
\<close>

record 'c client =
  call_testConnection :: "'c \<Rightarrow> (thrown + bool) \<times> 'c"
  call_listApis :: "'c \<Rightarrow> (thrown + string list) \<times> 'c"
  call_listOperations :: "string \<Rightarrow> 'c \<Rightarrow> (thrown + string list) \<times> 'c"
  call_updateApiPolicy :: "string \<Rightarrow> string \<Rightarrow> 'c \<Rightarrow> (thrown + PolicyUpdateResult) \<times> 'c"
  call_updateOperationPolicy ::
    "string \<Rightarrow> string option \<Rightarrow> string \<Rightarrow> 'c \<Rightarrow> (thrown + PolicyUpdateResult) \<times> 'c"

definition returns :: "'a \<times> 'c \<Rightarrow> (thrown + 'a) \<times> 'c" where
  \<comment> \<open>a call that lets no exception out\<close>
  "returns p = (Inr (fst p), snd p)"

definition AzureApimClient :: "'r sdk \<Rightarrow> ApimConfig \<Rightarrow> 'r world client" where
  "AzureApimClient s cfg =
     \<lparr>call_testConnection = (\<lambda>w. returns (testConnection s cfg w)),
      call_listApis = (\<lambda>w. returns (listApis s cfg w)),
      call_listOperations = (\<lambda>aid w. returns (listOperations s cfg aid w)),
      call_updateApiPolicy = (\<lambda>aid text w. returns (updateApiPolicy s cfg aid text w)),
      call_updateOperationPolicy =
        (\<lambda>aid oid text w. returns (updateOperationPolicy s cfg aid oid text w))\<rparr>"

text \<open>
  The state of a run: the state of the client, what the run has logged, published and
  called so far, and, for each policy processed, the result of its update or the
  exception it raised. The code keeps no list of results (only \<open>lastETag\<close>);
  \<open>outcomes\<close> records them for the statements below and nothing reads it.
\<close>

record 'c run_state =
  client_state :: 'c
  events :: "event list"
  outcomes :: "(thrown + PolicyUpdateResult) list"

definition say :: "event list \<Rightarrow> 'c run_state \<Rightarrow> 'c run_state" where
  "say evs st = st\<lparr>events := events st @ evs\<rparr>"

subsection \<open>parseInputs (utils.ts)\<close>

text \<open>
  \<open>getInput name required\<close> is \<open>core.getInput(name, {required})\<close> of \<open>@actions/core\<close>,
  a parameter: the value of the input, or the exception the library raises.
\<close>

definition parseInputs ::
  "(string \<Rightarrow> bool \<Rightarrow> thrown + string) \<Rightarrow> (thrown + ApimConfig) \<times> event list" where
  "parseInputs getInput =
     (case getInput ''subscription_id'' True of
        Inl err \<Rightarrow> (Inl err, [])
      | Inr sid \<Rightarrow>
     (case getInput ''resource_group'' True of
        Inl err \<Rightarrow> (Inl err, [])
      | Inr rg \<Rightarrow>
     (case getInput ''apim_name'' True of
        Inl err \<Rightarrow> (Inl err, [])
      | Inr svc \<Rightarrow>
     (case getInput ''policy_manifest_path'' False of
        Inl err \<Rightarrow> (Inl err, [])
      | Inr mp \<Rightarrow>
          if sid = [] then (Inl (JsError ''subscription_id input is required'' None), [])
          else if rg = [] then (Inl (JsError ''resource_group input is required'' None), [])
          else if svc = [] then (Inl (JsError ''apim_name input is required'' None), [])
          else
            (Inr \<lparr>subscriptionId = sid, resourceGroupName = rg, serviceName = svc,
                  policyManifestPath = (if mp = [] then None else Some mp)\<rparr>,
             [Log Info ''Configuration loaded:'',
              Log Info (''  Subscription ID: '' @ sid),
              Log Info (''  Resource Group: '' @ rg),
              Log Info (''  APIM Service: '' @ svc)]
             @ (if mp = [] then [] else [Log Info (''  Policy Manifest: '' @ mp)]))))))"

subsection \<open>run\<close>

definition ask :: "call \<Rightarrow> ('c \<Rightarrow> 'a \<times> 'c) \<Rightarrow> 'c run_state \<Rightarrow> 'a \<times> 'c run_state" where
  \<comment> \<open>a call on the client: recorded, and the client state replaced by the new one\<close>
  "ask c f st =
     (case f (client_state st) of
        (res, cs) \<Rightarrow> (res, st\<lparr>client_state := cs, events := events st @ [ClientCall c]\<rparr>))"

text \<open>
  \<open>for (const apiId of availableApis.slice(0, 3))\<close> (lines 34 to 42); an exception of
  \<open>listOperations\<close> leaves the loop.
\<close>

fun listFirstOperations ::
  "'c client \<Rightarrow> string list \<Rightarrow> 'c run_state \<Rightarrow> thrown option \<times> 'c run_state" where
  "listFirstOperations cl [] st = (None, st)"
| "listFirstOperations cl (aid # rest) st =
     (case ask (ListOperations aid) (call_listOperations cl aid) st of
        (Inl err, st1) \<Rightarrow> (Some err, st1)
      | (Inr ops, st1) \<Rightarrow>
          listFirstOperations cl rest
            (say [if length ops > 0
                  then Log Info (''API '' @ quoted aid @ '' operations: '' @ join '', '' ops)
                  else Log Info (''API '' @ quoted aid @ '' has no operations'')] st1))"

text \<open>
  Lines 13 to 45: the inputs, the client, the connection test and the listing for the
  log. The result is the configuration and the client, or the exception that ends the
  \<open>try\<close>.
\<close>

definition connect ::
  "(string \<Rightarrow> bool \<Rightarrow> thrown + string) \<Rightarrow> (ApimConfig \<Rightarrow> 'c client) \<Rightarrow> 'c run_state
     \<Rightarrow> (thrown + ApimConfig \<times> 'c client) \<times> 'c run_state" where
  "connect getInput mk st =
     (let st0 = say [Log Info ''Starting Azure API Management Policy Update action...''] st in
      case parseInputs getInput of
        (Inl err, lines) \<Rightarrow> (Inl err, say lines st0)
      | (Inr config, lines) \<Rightarrow>
     (let cl = mk config in
      case ask TestConnection (call_testConnection cl) (say lines st0) of
        (Inl err, st1) \<Rightarrow> (Inl err, st1)
      | (Inr connectionTest, st1) \<Rightarrow>
          if \<not> connectionTest then
            (Inl (JsError ''Failed to connect to Azure API Management service'' None), st1)
          else
     (case ask ListApis (call_listApis cl)
             (say [Log Info ''Listing available APIs in APIM service...''] st1) of
        (Inl err, st2) \<Rightarrow> (Inl err, st2)
      | (Inr availableApis, st2) \<Rightarrow>
          if length availableApis > 0 then
            (case listFirstOperations cl (take 3 availableApis)
                    (say [Log Info (''Available APIs: '' @ join '', '' availableApis)] st2) of
               (Some err, st3) \<Rightarrow> (Inl err, st3)
             | (None, st3) \<Rightarrow> (Inr (config, cl), st3))
          else
            (Inr (config, cl), say [Log Warning ''No APIs found in APIM service''] st2))))"

definition show_scope :: "scope \<Rightarrow> string" where
  "show_scope sc = (case sc of Api \<Rightarrow> ''api'' | Operation \<Rightarrow> ''operation'')"

definition policyName :: "PolicyFile \<Rightarrow> string" where
  \<comment> \<open>\<open>${policy.apiId}${policy.operationId ? `/${policy.operationId}` : ''}\<close>\<close>
  "policyName policy =
     apiId policy @ (if truthy (operationId policy) then ''/'' @ the (operationId policy) else [])"

text \<open>
  The body of \<open>for (const policy of policies)\<close> (lines 70 to 101) with its
  \<open>try\<close>/\<open>catch\<close>, threading \<open>lastETag\<close>.
\<close>

definition processPolicy ::
  "'c client \<Rightarrow> PolicyFile \<Rightarrow> string \<Rightarrow> 'c run_state \<Rightarrow> string \<times> 'c run_state" where
  "processPolicy cl policy lastETag st =
     (case (if scope policy = Api then
              ask (UpdateApiPolicy (apiId policy) (content policy))
                (call_updateApiPolicy cl (apiId policy) (content policy)) st
            else
              ask (UpdateOperationPolicy (apiId policy) (operationId policy) (content policy))
                (call_updateOperationPolicy cl (apiId policy) (operationId policy)
                   (content policy)) st) of
        (res, st0) \<Rightarrow>
     (let st1 = st0\<lparr>outcomes := outcomes st0 @ [res]\<rparr> in
      case res of
        Inl err \<Rightarrow>
          (lastETag,
           say [Log Error (''Error processing policy '' @ filePath policy @ '': ''
                           @ errorMessageOf err)] st1)
      | Inr result \<Rightarrow>
          if updated result then
            (if truthy (etag result) then the (etag result) else lastETag,
             say [Log Info (''Successfully updated '' @ show_scope (scope policy)
                            @ '' policy: '' @ policyName policy)] st1)
          else if truthy (error result) then
            (lastETag,
             say [Log Error (''Failed to update '' @ show_scope (scope policy)
                             @ '' policy: '' @ policyName policy @ '' - ''
                             @ the (error result))] st1)
          else (lastETag, st1)))"

fun processPolicies ::
  "'c client \<Rightarrow> PolicyFile list \<Rightarrow> string \<Rightarrow> 'c run_state \<Rightarrow> string \<times> 'c run_state" where
  "processPolicies cl [] lastETag st = (lastETag, st)"
| "processPolicies cl (policy # rest) lastETag st =
     (case processPolicy cl policy lastETag st of
        (lastETag', st') \<Rightarrow> processPolicies cl rest lastETag' st')"

text \<open>
  Lines 47 to 107, from the discovery on. \<open>discoverPolicies\<close> is called with the
  manifest path alone, so \<open>baseDir\<close> is its default \<open>'.'\<close>. The result is the exception
  that leaves the \<open>try\<close>, if any.
\<close>

definition update ::
  "env \<Rightarrow> ApimConfig \<Rightarrow> 'c client \<Rightarrow> 'c run_state \<Rightarrow> thrown option \<times> 'c run_state" where
  "update e config cl st =
     (case discoverPolicies e (policyManifestPath config) ''.'' of
        (policies, lines) \<Rightarrow>
     (let st1 = say (Log Info ''Discovering policy files...'' # lines) st in
      if length policies = 0 then
        (None, say [Log Warning ''No policy files found to update'', SetOutput ''etag'' []] st1)
      else
     (case validatePolicies policies of
        (isValid, lines') \<Rightarrow>
          if \<not> isValid then (Some (JsError ''Policy validation failed'' None), say lines' st1)
          else
     (case processPolicies cl policies []
             (say (lines' @ [Log Info (''Found '' @ show_nat (length policies)
                                       @ '' valid policy files to process''),
                             Log Info ''Starting policy updates...'']) st1) of
        (lastETag, st2) \<Rightarrow>
          (None, say [SetOutput ''etag'' lastETag, Log Info ''Action completed successfully'']
                   st2)))))"

definition run ::
  "(string \<Rightarrow> bool \<Rightarrow> thrown + string) \<Rightarrow> env \<Rightarrow> (ApimConfig \<Rightarrow> 'c client) \<Rightarrow> 'c
     \<Rightarrow> 'c run_state" where
  "run getInput e mk c0 =
     (let failed = (\<lambda>err st.
            say [SetFailed (case err of JsError msg r \<Rightarrow> msg
                            | NonError m r \<Rightarrow> ''An unknown error occurred''),
                 SetOutput ''etag'' []] st) in
      case connect getInput mk \<lparr>client_state = c0, events = [], outcomes = []\<rparr> of
        (Inl err, st) \<Rightarrow> failed err st
      | (Inr (config, cl), st) \<Rightarrow>
          (case update e config cl st of
             (Some err, st') \<Rightarrow> failed err st'
           | (None, st') \<Rightarrow> st'))"

subsection \<open>What a run published\<close>

fun published :: "string \<Rightarrow> event list \<Rightarrow> string option" where
  \<comment> \<open>the value of an output after the run: that of the last \<open>setOutput\<close> of its name\<close>
  "published name [] = None"
| "published name (ev # evs) =
     (case published name evs of
        Some v \<Rightarrow> Some v
      | None \<Rightarrow> (case ev of SetOutput n v \<Rightarrow> if n = name then Some v else None | _ \<Rightarrow> None))"

definition run_failed :: "event list \<Rightarrow> bool" where
  \<comment> \<open>the run was reported failed: \<open>core.setFailed\<close> was called\<close>
  "run_failed evs = (\<exists>ev \<in> set evs. case ev of SetFailed m \<Rightarrow> True | _ \<Rightarrow> False)"

definition is_update :: "call \<Rightarrow> bool" where
  "is_update c =
     (case c of UpdateApiPolicy a t \<Rightarrow> True | UpdateOperationPolicy a oid t \<Rightarrow> True | _ \<Rightarrow> False)"

definition update_calls :: "event list \<Rightarrow> call list" where
  \<comment> \<open>the update calls made on the client, in order\<close>
  "update_calls evs = concat (map (\<lambda>ev. case ev of ClientCall c \<Rightarrow> if is_update c then [c] else []
                                         | _ \<Rightarrow> []) evs)"

definition update_call_of :: "PolicyFile \<Rightarrow> call" where
  "update_call_of policy =
     (if scope policy = Api then UpdateApiPolicy (apiId policy) (content policy)
      else UpdateOperationPolicy (apiId policy) (operationId policy) (content policy))"

section \<open>Definitions used in the statements\<close>

text \<open>
  The path grammar in the specification's words, to compare \<open>extractApiIdFromPath\<close>
  with: a path is a sequence of segments separated by a slash or a backslash, and the API
  identifier is the segment immediately following a literal \<open>policies\<close> segment, none
  if that segment is empty or absent.
\<close>

fun split_path :: "string \<Rightarrow> string list" where
  "split_path [] = [[]]"
| "split_path (c # cs) =
     (if c \<in> set seps then [] # split_path cs
      else (case split_path cs of [] \<Rightarrow> [[c]] | seg # segs \<Rightarrow> (c # seg) # segs))"

definition spec_extractApiId :: "string \<Rightarrow> string option" where
  "spec_extractApiId p =
     (case dropWhile (\<lambda>seg. seg \<noteq> ''policies'') (split_path p) of
        [] \<Rightarrow> None
      | [pol] \<Rightarrow> None
      | pol # seg # segs \<Rightarrow> if seg = [] then None else Some seg)"

text \<open>
  The output contract in the specification's words: the token of the last successful
  result, in iteration order, whose token is non-empty; the empty string when there is
  none.
\<close>

definition applied_tokens :: "(thrown + PolicyUpdateResult) list \<Rightarrow> string list" where
  "applied_tokens outs =
     concat (map (\<lambda>out. case out of
                          Inl err \<Rightarrow> []
                        | Inr r \<Rightarrow> if updated r \<and> truthy (etag r) then [the (etag r)] else [])
                 outs)"

definition spec_lastEtag :: "(thrown + PolicyUpdateResult) list \<Rightarrow> string" where
  "spec_lastEtag outs = (if applied_tokens outs = [] then [] else last (applied_tokens outs))"

text \<open>
  What the client answers to the update calls of a list of documents made in list order
  from a client state: for each document the result the call returns or the exception it
  raises, the state being passed from one call to the next. It is defined on the client
  alone and reads nothing a run records.
\<close>

definition update_on :: "'c client \<Rightarrow> PolicyFile \<Rightarrow> 'c \<Rightarrow> (thrown + PolicyUpdateResult) \<times> 'c" where
  "update_on cl p c =
     (if scope p = Api then call_updateApiPolicy cl (apiId p) (content p) c
      else call_updateOperationPolicy cl (apiId p) (operationId p) (content p) c)"

fun call_results :: "'c client \<Rightarrow> PolicyFile list \<Rightarrow> 'c \<Rightarrow> (thrown + PolicyUpdateResult) list" where
  "call_results cl [] c = []"
| "call_results cl (p # ps) c =
     (case update_on cl p c of (res, c') \<Rightarrow> res # call_results cl ps c')"

text \<open>
  The write-failure message in the specification's words: the nested message of the
  response payload if the error carries one (\<open>response.data.error.message\<close>, or
  \<open>response.data.message\<close>), otherwise the error's own message, otherwise the constant.
\<close>

definition spec_extractMessage :: "thrown \<Rightarrow> string" where
  "spec_extractMessage err =
     (let (own, r) = (case err of JsError msg r \<Rightarrow> (Some msg, r) | NonError m r \<Rightarrow> (m, r));
          nested = (case r of
                      Some (Response (Some (ResponseData n m))) \<Rightarrow>
                        if truthy n then n else if truthy m then m else None
                    | _ \<Rightarrow> None)
      in case nested of
           Some msg \<Rightarrow> msg
         | None \<Rightarrow> (case own of Some msg \<Rightarrow> msg | None \<Rightarrow> ''unknown error''))"

text \<open>The invariant of a discovered document: \<open>operationId\<close> is there exactly in scope \<open>operation\<close>.\<close>

definition operationId_matches_scope :: "PolicyFile \<Rightarrow> bool" where
  "operationId_matches_scope pf =
     ((operationId pf \<noteq> None) = (scope pf = Operation)
      \<and> (operationId pf = None) = (scope pf = Api))"

text \<open>The \<open>api\<close> counter a map of counts holds for an apiId, 0 when it has no entry.\<close>

definition api_count :: "(string \<times> counts) list \<Rightarrow> string \<Rightarrow> nat" where
  "api_count apiCounts aid = (case map_of apiCounts aid of None \<Rightarrow> 0 | Some c \<Rightarrow> api c)"

text \<open>The API-level documents of one apiId in a list of documents.\<close>

definition api_level_of :: "string \<Rightarrow> PolicyFile list \<Rightarrow> PolicyFile list" where
  "api_level_of aid policies = filter (\<lambda>p. apiId p = aid \<and> scope p = Api) policies"

text \<open>The write calls (\<open>createOrUpdate\<close>) among the events of a trace, in order.\<close>

definition sdk_writes :: "event list \<Rightarrow> sdk_call list" where
  "sdk_writes evs =
     concat (map (\<lambda>ev. case ev of
                          SdkCall (ApiPolicyCreateOrUpdate a t) \<Rightarrow> [ApiPolicyCreateOrUpdate a t]
                        | SdkCall (ApiOperationPolicyCreateOrUpdate a oid t) \<Rightarrow>
                            [ApiOperationPolicyCreateOrUpdate a oid t]
                        | _ \<Rightarrow> [])
                 evs)"

section \<open>Fixtures\<close>

text \<open>
  A stand-in for the SDK, as the tests of the repository mock it: the service lists the
  APIs \<open>apis\<close>, no API has operations, and a write on an API answers \<open>write apiId\<close>
  (an \<open>eTag\<close>, or an exception). The service has no state of its own.
\<close>

definition mock_sdk :: "string list \<Rightarrow> (string \<Rightarrow> thrown + string option) \<Rightarrow> unit sdk" where
  "mock_sdk apis write =
     \<lparr>api_listByService = (\<lambda>rg svc r. (Inr (map Some apis), r)),
      apiOperation_listByApi = (\<lambda>rg svc aid r. (Inr [], r)),
      apiPolicy_createOrUpdate = (\<lambda>rg svc aid xml r. (write aid, r)),
      apiOperationPolicy_createOrUpdate = (\<lambda>rg svc aid oid xml r. (write aid, r)),
      apiManagementService_get = (\<lambda>rg svc r. (Inr (Some svc, Some ''westeurope''), r))\<rparr>"

definition test_config :: ApimConfig where
  "test_config =
     \<lparr>subscriptionId = ''test-subscription-id'', resourceGroupName = ''test-rg'',
      serviceName = ''test-apim'', policyManifestPath = None\<rparr>"

definition no_trace :: "unit world" where
  "no_trace = \<lparr>remote = (), trace = []\<rparr>"

text \<open>
  The inputs of a workflow that gives the three required inputs and no manifest path,
  and a file system that holds the given files: \<open>glob\<close> finds their paths, in order,
  and a path resolves to itself.
\<close>

definition test_inputs :: "string \<Rightarrow> bool \<Rightarrow> thrown + string" where
  "test_inputs name required =
     (if name = ''subscription_id'' then Inr ''test-subscription-id''
      else if name = ''resource_group'' then Inr ''test-rg''
      else if name = ''apim_name'' then Inr ''test-apim''
      else Inr [])"

definition mock_files :: "(string \<times> string) list \<Rightarrow> env" where
  "mock_files files =
     \<lparr>policyPattern = (\<lambda>baseDir. if baseDir = ''.'' then ''policies/**/*.xml''
                                 else baseDir @ ''/policies/**/*.xml''),
      glob = (\<lambda>pattern baseDir. Inr (map fst files)),
      pathResolve = (\<lambda>baseDir p. p),
      readFile = (\<lambda>p. case map_of files p of
                          None \<Rightarrow> Inl (JsError ''ENOENT: no such file or directory'' None)
                        | Some xml \<Rightarrow> Inr xml),
      parseYaml = (\<lambda>yaml. Inr MissingPolicies)\<rparr>"

text \<open>
  Scenario C of the specification: two API-level documents, for \<open>api1\<close> and \<open>api2\<close>; both
  APIs exist; the write on \<open>api1\<close> fails with \<open>boom\<close>, the write on \<open>api2\<close> succeeds with
  the token \<open>etag-2\<close>.
\<close>

definition scenario_sdk :: "unit sdk" where
  "scenario_sdk =
     mock_sdk [''api1'', ''api2'']
       (\<lambda>aid. if aid = ''api1'' then Inl (JsError ''boom'' None) else Inr (Some ''etag-2''))"

definition scenario_files :: env where
  "scenario_files =
     mock_files [(''policies/api1/api.xml'', ''<policies></policies>''),
                 (''policies/api2/api.xml'', ''<policies></policies>'')]"

definition scenario_c :: "unit world run_state" where
  "scenario_c = run test_inputs scenario_files (AzureApimClient scenario_sdk) no_trace"

definition scenario_doc1 :: PolicyFile where
  "scenario_doc1 =
     \<lparr>filePath = ''policies/api1/api.xml'', apiId = ''api1'', operationId = None,
      scope = Api, content = ''<policies></policies>''\<rparr>"

definition scenario_doc2 :: PolicyFile where
  "scenario_doc2 =
     \<lparr>filePath = ''policies/api2/api.xml'', apiId = ''api2'', operationId = None,
      scope = Api, content = ''<policies></policies>''\<rparr>"

text \<open>
  Scenario A of the specification: the directory convention with one API-level and one
  operation-level file of \<open>sample-api\<close>.
\<close>

definition sample_files :: env where
  "sample_files =
     mock_files [(''policies/sample-api/api.xml'', ''<policies></policies>''),
                 (''policies/sample-api/operations/get-users.xml'', ''<policies></policies>'')]"


text \<open>
  The same two documents on a service where both writes succeed, each with a token of
  its own.
\<close>

definition succeeding_sdk :: "unit sdk" where
  "succeeding_sdk = mock_sdk [''api1'', ''api2''] (\<lambda>aid. Inr (Some (''etag-of-'' @ aid)))"

section \<open>Definitions used in the proofs\<close>

text \<open>An event that publishes nothing: a log line or a call.\<close>

definition is_quiet :: "event \<Rightarrow> bool" where
  "is_quiet ev = (case ev of SetOutput n v \<Rightarrow> False | SetFailed m \<Rightarrow> False | _ \<Rightarrow> True)"

definition is_log :: "event \<Rightarrow> bool" where
  "is_log ev = (case ev of Log lv m \<Rightarrow> True | _ \<Rightarrow> False)"

text \<open>The state a run starts in.\<close>

definition initial :: "'c \<Rightarrow> 'c run_state" where
  "initial c0 = \<lparr>client_state = c0, events = [], outcomes = []\<rparr>"

text \<open>An event of the start of a run: a log line, or a call that is not an update.\<close>

definition is_prelude :: "event \<Rightarrow> bool" where
  "is_prelude ev = (case ev of Log lv m \<Rightarrow> True | ClientCall c \<Rightarrow> \<not> is_update c | _ \<Rightarrow> False)"

text \<open>
  \<open>st'\<close> continues \<open>st\<close> with events of the start of a run only, and with the same
  outcomes.
\<close>

definition extends :: "'c run_state \<Rightarrow> 'c run_state \<Rightarrow> bool" where
  "extends st st' =
     (\<exists>evs. events st' = events st @ evs \<and> list_all is_prelude evs
            \<and> outcomes st' = outcomes st)"

section \<open>Properties of the string operations\<close>

lemma startsWith_iff: "startsWith s p \<longleftrightarrow> (\<exists>v. s = p @ v)"
  unfolding startsWith_def
  by (metis append_eq_conv_conj append_take_drop_id)

lemma includes_iff: "includes_str s p \<longleftrightarrow> (\<exists>u v. s = u @ p @ v)"
proof (induction s)
  case Nil
  then show ?case by auto
next
  case (Cons c cs)
  show ?case
  proof
    assume "includes_str (c # cs) p"
    then consider "startsWith (c # cs) p" | "includes_str cs p" by auto
    then show "\<exists>u v. c # cs = u @ p @ v"
    proof cases
      case 1
      then obtain v where "c # cs = p @ v" unfolding startsWith_iff ..
      then have "c # cs = [] @ p @ v" by simp
      then show ?thesis by blast
    next
      case 2
      with Cons.IH obtain u v where "cs = u @ p @ v" by blast
      then have "c # cs = (c # u) @ p @ v" by simp
      then show ?thesis by blast
    qed
  next
    assume "\<exists>u v. c # cs = u @ p @ v"
    then obtain u v where uv: "c # cs = u @ p @ v" by blast
    show "includes_str (c # cs) p"
    proof (cases u)
      case Nil
      with uv have "startsWith (c # cs) p" unfolding startsWith_iff by auto
      then show ?thesis by simp
    next
      case (Cons a u')
      with uv have "cs = u' @ p @ v" by simp
      with Cons.IH have "includes_str cs p" by blast
      then show ?thesis by simp
    qed
  qed
qed

lemma endsWith_iff: "endsWith s p \<longleftrightarrow> (\<exists>u. s = u @ p)"
proof
  assume "endsWith s p"
  then have "s = take (length s - length p) s @ p"
    unfolding endsWith_def by (metis append_take_drop_id)
  then show "\<exists>u. s = u @ p" ..
next
  assume "\<exists>u. s = u @ p"
  then show "endsWith s p" unfolding endsWith_def by auto
qed

lemma trim_decompose:
  "\<exists>l r. s = l @ trim s @ r \<and> (\<forall>x\<in>set l. is_ws x) \<and> (\<forall>x\<in>set r. is_ws x)"
proof -
  let ?l = "takeWhile is_ws s"
  let ?m = "dropWhile is_ws s"
  let ?r = "rev (takeWhile is_ws (rev ?m))"
  have "rev ?m = takeWhile is_ws (rev ?m) @ dropWhile is_ws (rev ?m)" by simp
  then have "?m = trim s @ ?r"
    unfolding trim_def by (metis rev_append rev_rev_ident)
  then have "s = ?l @ trim s @ ?r" by (metis takeWhile_dropWhile_id)
  moreover have "\<forall>x\<in>set ?l. is_ws x" by (auto dest: set_takeWhileD)
  moreover have "\<forall>x\<in>set ?r. is_ws x" by (auto dest: set_takeWhileD)
  ultimately show ?thesis by blast
qed

lemma trim_unique:
  assumes "\<forall>x\<in>set l. is_ws x" and "\<forall>x\<in>set r. is_ws x"
    and "t \<noteq> []" and "\<not> is_ws (hd t)" and "\<not> is_ws (last t)"
  shows "trim (l @ t @ r) = t"
proof -
  from assms(3) obtain a t' where t: "t = a # t'" by (cases t) auto
  with assms(4) have a: "\<not> is_ws a" by simp
  have "dropWhile is_ws (l @ t @ r) = t @ r"
    using assms(1) a t by (simp add: dropWhile_append3)
  moreover have "dropWhile is_ws (rev (t @ r)) = rev t"
  proof -
    from assms(3) obtain b t'' where t2: "rev t = b # t''" by (cases "rev t") auto
    with assms(3) have "b = last t" by (metis list.sel(1) hd_rev)
    with assms(5) have "\<not> is_ws b" by simp
    then show ?thesis using assms(2) t2 by (simp add: dropWhile_append3)
  qed
  ultimately show ?thesis unfolding trim_def by simp
qed

lemma is_ws_lt: "\<not> is_ws (CHR ''<'')"
  by (simp add: is_ws_def)

lemma startsWith_single: "startsWith t [a] \<longleftrightarrow> (t \<noteq> [] \<and> hd t = a)"
  by (cases t) (auto simp: startsWith_def)

lemma endsWith_single: "endsWith t [a] \<longleftrightarrow> (t \<noteq> [] \<and> last t = a)"
proof (cases t rule: rev_cases)
  case Nil
  then show ?thesis by (simp add: endsWith_def)
next
  case (snoc ys y)
  then show ?thesis by (auto simp: endsWith_iff)
qed

lemma trim_Nil: "trim [] = []"
  by (simp add: trim_def)

section \<open>The content validator\<close>

lemma validateXmlContent_iff:
  "validateXmlContent c \<longleftrightarrow>
     (trim c \<noteq> [] \<and> hd (trim c) = CHR ''<'' \<and> last (trim c) = CHR ''>''
      \<and> (\<exists>u v. trim c = u @ ''<policies>'' @ v)
      \<and> (\<exists>u v. trim c = u @ ''</policies>'' @ v))"
proof (cases "c = []")
  case True
  then show ?thesis by (simp add: validateXmlContent_def trim_Nil)
next
  case False
  then show ?thesis
    unfolding validateXmlContent_def Let_def startsWith_single endsWith_single includes_iff
    by auto
qed

text \<open>
  Claim C8. \<open>validateXmlContent c\<close> is true exactly when \<open>c\<close>, trimmed of surrounding
  whitespace, is non-empty, starts with \<open><\<close>, ends with \<open>>\<close> and contains both
  \<open><policies>\<close> and \<open></policies>\<close>. The empty string, three spaces, \<open>not xml\<close> and
  \<open><root></root>\<close> are rejected; \<open><policies><inbound/></policies>\<close> is accepted.
\<close>

theorem validateXmlContent_contract:
  "(\<forall>c. validateXmlContent c \<longleftrightarrow>
      (trim c \<noteq> [] \<and> hd (trim c) = CHR ''<'' \<and> last (trim c) = CHR ''>''
       \<and> (\<exists>u v. trim c = u @ ''<policies>'' @ v)
       \<and> (\<exists>u v. trim c = u @ ''</policies>'' @ v)))
   \<and> \<not> validateXmlContent ''''
   \<and> \<not> validateXmlContent ''   ''
   \<and> \<not> validateXmlContent ''not xml''
   \<and> \<not> validateXmlContent ''<root></root>''
   \<and> validateXmlContent ''<policies><inbound/></policies>''"
proof -
  have e1: "\<not> validateXmlContent ''''" by code_simp
  have e2: "\<not> validateXmlContent ''   ''" by code_simp
  have e3: "\<not> validateXmlContent ''not xml''" by code_simp
  have e4: "\<not> validateXmlContent ''<root></root>''" by code_simp
  have e5: "validateXmlContent ''<policies><inbound/></policies>''" by code_simp
  show ?thesis using validateXmlContent_iff e1 e2 e3 e4 e5 by blast
qed

theorem validateXmlContent_contract_witness:
  "trim '' <policies></policies> '' = ''<policies></policies>''
   \<and> validateXmlContent '' <policies></policies> ''"
proof -
  have t: "trim '' <policies></policies> '' = ''<policies></policies>''" by code_simp
  have "''<policies></policies>'' = [] @ ''<policies>'' @ ''</policies>''" by simp
  then have a: "\<exists>u v. trim '' <policies></policies> '' = u @ ''<policies>'' @ v"
    unfolding t by blast
  have "''<policies></policies>'' = ''<policies>'' @ ''</policies>'' @ []" by simp
  then have b: "\<exists>u v. trim '' <policies></policies> '' = u @ ''</policies>'' @ v"
    unfolding t by blast
  have "validateXmlContent '' <policies></policies> ''"
    using validateXmlContent_contract a b t by simp
  with t show ?thesis by simp
qed

section \<open>The regular expressions\<close>

lemma first_some_None: "\<forall>x\<in>set xs. f x = None \<Longrightarrow> first_some f xs = None"
  by (induction xs) simp_all

lemma rev_upt_Suc: "0 < n \<Longrightarrow> rev [1 ..< Suc n] = n # rev [1 ..< n]"
  by (cases n) auto

lemma first_some_rev_upt:
  assumes "0 < n"
  shows "first_some f (rev [1 ..< Suc n]) =
           (case f n of Some y \<Rightarrow> Some y | None \<Rightarrow> first_some f (rev [1 ..< n]))"
  unfolding rev_upt_Suc[OF assms] by (cases "f n") simp_all

lemma match_run_then_sep:
  "match_here (ManyNoneOf cs capture # OneOf cs # re) s =
     (let a = takeWhile (\<lambda>c. c \<notin> set cs) s; t = dropWhile (\<lambda>c. c \<notin> set cs) s in
      if a = [] \<or> t = [] then None
      else case match_here re (tl t) of
             None \<Rightarrow> None
           | Some groups \<Rightarrow> Some (if capture then a # groups else groups))"
proof -
  let ?P = "\<lambda>c. c \<notin> set cs"
  let ?a = "takeWhile ?P s" and ?t = "dropWhile ?P s"
  let ?n = "length ?a"
  let ?f = "\<lambda>n. case match_here (OneOf cs # re) (drop n s) of
              None \<Rightarrow> None
            | Some groups \<Rightarrow> Some (if capture then take n s # groups else groups)"
  have lhs: "match_here (ManyNoneOf cs capture # OneOf cs # re) s = first_some ?f (rev [1 ..< Suc ?n])"
    by simp
  show ?thesis
  proof (cases "?a = []")
    case True
    then show ?thesis by (simp add: Let_def)
  next
    case False
    then have n: "0 < ?n" by simp
    have small: "?f k = None" if "k \<in> set (rev [1 ..< ?n])" for k
    proof -
      from that have k: "k < ?n" by simp
      then have ks: "k < length s" using length_takeWhile_le[of ?P s] by linarith
      have "s ! k = ?a ! k" using k by (simp add: takeWhile_nth)
      moreover have "?a ! k \<in> set ?a" using k by simp
      ultimately have "?P (s ! k)" by (metis set_takeWhileD)
      moreover obtain d where "drop k s = s ! k # d"
        using ks by (metis Cons_nth_drop_Suc)
      ultimately have "match_here (OneOf cs # re) (drop k s) = None" by simp
      then show ?thesis by simp
    qed
    have dn: "drop ?n s = ?t" by (rule dropWhile_eq_drop[symmetric])
    have tn: "take ?n s = ?a" by (rule takeWhile_eq_take[symmetric])
    show ?thesis
    proof (cases ?t)
      case Nil
      have "match_here (OneOf cs # re) (drop ?n s) = None" unfolding dn Nil by simp
      then have "?f ?n = None" by simp
      then have "first_some ?f (rev [1 ..< Suc ?n]) = None"
        using small first_some_None[of "rev [1 ..< ?n]" ?f] unfolding first_some_rev_upt[OF n] by simp
      then show ?thesis using Nil lhs by (simp add: Let_def)
    next
      case (Cons c t')
      then have "\<not> ?P c" by (metis hd_dropWhile list.sel(1) list.distinct(1))
      then have c: "c \<in> set cs" by simp
      have "match_here (OneOf cs # re) (drop ?n s) = match_here re t'"
        unfolding dn Cons using c by simp
      then have fn: "?f ?n = (case match_here re t' of None \<Rightarrow> None
                  | Some groups \<Rightarrow> Some (if capture then ?a # groups else groups))"
        unfolding tn by simp
      show ?thesis
      proof (cases "match_here re t'")
        case None
        then have "?f ?n = None" using fn by simp
        then have "first_some ?f (rev [1 ..< Suc ?n]) = None"
          using small first_some_None[of "rev [1 ..< ?n]" ?f] unfolding first_some_rev_upt[OF n] by simp
        then show ?thesis using None Cons lhs False by (simp add: Let_def)
      next
        case (Some g)
        then have "?f ?n = Some (if capture then ?a # g else g)" using fn by simp
        then have "first_some ?f (rev [1 ..< Suc ?n]) = Some (if capture then ?a # g else g)"
          unfolding first_some_rev_upt[OF n] by simp
        then show ?thesis using Some Cons lhs False by (simp add: Let_def)
      qed
    qed
  qed
qed

lemma match_Lit_iff:
  "match_here (Lit w # re) s = Some g \<longleftrightarrow> (\<exists>v. s = w @ v \<and> match_here re v = Some g)"
proof
  assume m: "match_here (Lit w # re) s = Some g"
  then have sw: "startsWith s w" by (simp split: if_splits)
  then have "s = w @ drop (length w) s"
    unfolding startsWith_def by (metis append_take_drop_id)
  moreover from m sw have "match_here re (drop (length w) s) = Some g" by simp
  ultimately show "\<exists>v. s = w @ v \<and> match_here re v = Some g" by blast
next
  assume "\<exists>v. s = w @ v \<and> match_here re v = Some g"
  then obtain v where "s = w @ v" "match_here re v = Some g" by blast
  then show "match_here (Lit w # re) s = Some g" by (simp add: startsWith_def)
qed

lemma match_OneOf_iff:
  "match_here (OneOf cs # re) s = Some g \<longleftrightarrow>
     (\<exists>c v. s = c # v \<and> c \<in> set cs \<and> match_here re v = Some g)"
  by (cases s) auto

lemma match_run_sep_iff:
  "match_here (ManyNoneOf cs capture # OneOf cs # re) s = Some g \<longleftrightarrow>
     (\<exists>a c v g'. s = a @ c # v \<and> a \<noteq> [] \<and> (\<forall>x\<in>set a. x \<notin> set cs) \<and> c \<in> set cs
        \<and> match_here re v = Some g' \<and> g = (if capture then a # g' else g'))"
proof
  let ?P = "\<lambda>c. c \<notin> set cs"
  assume m: "match_here (ManyNoneOf cs capture # OneOf cs # re) s = Some g"
  then have a: "takeWhile ?P s \<noteq> []" and t: "dropWhile ?P s \<noteq> []"
    unfolding match_run_then_sep Let_def by (auto split: if_splits)
  from t obtain c v where t2: "dropWhile ?P s = c # v" by (cases "dropWhile ?P s") auto
  then have "\<not> ?P c" by (metis hd_dropWhile list.sel(1) list.distinct(1))
  then have c: "c \<in> set cs" by simp
  from m a t2 obtain g' where g': "match_here re v = Some g'"
    and g: "g = (if capture then takeWhile ?P s # g' else g')"
    unfolding match_run_then_sep Let_def by (auto split: if_splits option.splits)
  have "s = takeWhile ?P s @ c # v" using t2 by (metis takeWhile_dropWhile_id)
  moreover have "\<forall>x\<in>set (takeWhile ?P s). x \<notin> set cs" by (auto dest: set_takeWhileD)
  ultimately show "\<exists>a c v g'. s = a @ c # v \<and> a \<noteq> [] \<and> (\<forall>x\<in>set a. x \<notin> set cs) \<and> c \<in> set cs
        \<and> match_here re v = Some g' \<and> g = (if capture then a # g' else g')"
    using a c g' g by blast
next
  let ?P = "\<lambda>c. c \<notin> set cs"
  assume "\<exists>a c v g'. s = a @ c # v \<and> a \<noteq> [] \<and> (\<forall>x\<in>set a. x \<notin> set cs) \<and> c \<in> set cs
        \<and> match_here re v = Some g' \<and> g = (if capture then a # g' else g')"
  then obtain a c v g' where s: "s = a @ c # v" and a: "a \<noteq> []"
    and sf: "\<forall>x\<in>set a. x \<notin> set cs" and c: "c \<in> set cs"
    and g': "match_here re v = Some g'" and g: "g = (if capture then a # g' else g')" by blast
  have tw: "takeWhile ?P s = a" unfolding s using sf c by simp
  have dw: "dropWhile ?P s = c # v" unfolding s using sf c by simp
  show "match_here (ManyNoneOf cs capture # OneOf cs # re) s = Some g"
    unfolding match_run_then_sep Let_def tw dw using a g' g by simp
qed

lemma match_apiId_iff:
  "match_here apiIdRe s = Some gs \<longleftrightarrow>
     (\<exists>s1 a s2 rest. s = ''policies'' @ s1 # a @ s2 # rest \<and> s1 \<in> set seps \<and> s2 \<in> set seps
        \<and> a \<noteq> [] \<and> (\<forall>c\<in>set a. c \<notin> set seps) \<and> gs = [a])"
  unfolding apiIdRe_def match_Lit_iff match_OneOf_iff match_run_sep_iff
  by (auto simp del: match_here.simps(4))

lemma regex_match_Some:
  "regex_match re s = Some g \<Longrightarrow> \<exists>u v. s = u @ v \<and> match_here re v = Some g"
proof (induction s)
  case Nil
  then show ?case by simp
next
  case (Cons c cs)
  show ?case
  proof (cases "match_here re (c # cs)")
    case None
    with Cons.prems have "regex_match re cs = Some g" by simp
    with Cons.IH obtain u v where "cs = u @ v" "match_here re v = Some g" by blast
    then have "c # cs = (c # u) @ v \<and> match_here re v = Some g" by simp
    then show ?thesis by blast
  next
    case (Some a)
    with Cons.prems have "a = g" by simp
    with Some have "c # cs = [] @ (c # cs) \<and> match_here re (c # cs) = Some g" by simp
    then show ?thesis by blast
  qed
qed

lemma regex_match_None:
  "(\<forall>u v. s = u @ v \<longrightarrow> match_here re v = None) \<Longrightarrow> regex_match re s = None"
proof (induction s)
  case Nil
  then show ?case by simp
next
  case (Cons c cs)
  have "match_here re (c # cs) = None" using Cons.prems by (metis append_Nil)
  moreover have "\<forall>u v. cs = u @ v \<longrightarrow> match_here re v = None"
    using Cons.prems by (metis append_Cons)
  ultimately show ?case using Cons.IH by simp
qed

lemma regex_match_leftmost:
  "match_here re v = Some g \<Longrightarrow> (\<forall>k < length u. match_here re (drop k (u @ v)) = None)
     \<Longrightarrow> regex_match re (u @ v) = Some g"
proof (induction u)
  case Nil
  then show ?case by (cases v) simp_all
next
  case (Cons c u)
  from Cons.prems(2) have "match_here re (drop 0 ((c # u) @ v)) = None" by blast
  then have h: "match_here re (c # u @ v) = None" by simp
  have "\<forall>k < length u. match_here re (drop k (u @ v)) = None"
  proof (intro allI impI)
    fix k assume "k < length u"
    then have "Suc k < length (c # u)" by simp
    with Cons.prems(2) have "match_here re (drop (Suc k) ((c # u) @ v)) = None" by blast
    then show "match_here re (drop k (u @ v)) = None" by simp
  qed
  with Cons.IH Cons.prems(1) have "regex_match re (u @ v) = Some g" by blast
  with h show ?case by simp
qed


lemma policies_no_sep: "c \<in> set ''policies'' \<Longrightarrow> c \<notin> set seps"
  by (auto simp: seps_def)

lemma literal_overlap:
  assumes L: "w @ lit @ y = lit @ t # x" and w: "w \<noteq> []" and t: "t \<notin> set lit"
  shows "\<exists>d. w = lit @ t # d"
proof -
  let ?n = "length lit"
  have r: "(lit @ t # x) ! ?n = t" by (simp add: nth_append)
  have long: "?n < length w"
  proof (rule ccontr)
    assume "\<not> ?n < length w"
    then have le: "length w \<le> ?n" by simp
    have j: "?n - length w < ?n" using w le by (cases w) simp_all
    have "(w @ lit @ y) ! ?n = (lit @ y) ! (?n - length w)"
      using le by (simp add: nth_append)
    also have "\<dots> = lit ! (?n - length w)" using j by (simp add: nth_append)
    finally have "t = lit ! (?n - length w)" using L r by simp
    then have "t \<in> set lit" using j nth_mem by metis
    with t show False by blast
  qed
  have "take (Suc ?n) (w @ lit @ y) = take (Suc ?n) w" using long by simp
  moreover have "take (Suc ?n) (lit @ t # x) = lit @ [t]" by simp
  ultimately have "take (Suc ?n) w = lit @ [t]" using L by simp
  then have "w = (lit @ [t]) @ drop (Suc ?n) w" by (metis append_take_drop_id)
  then have "w = lit @ t # drop (Suc ?n) w" by simp
  then show ?thesis ..
qed

lemma no_earlier_match:
  assumes H: "\<not> (\<exists>u s v. pre = u @ ''policies'' @ s # v \<and> s \<in> set seps)"
    and k: "k < length pre"
  shows "match_here apiIdRe (drop k (pre @ ''policies'' @ y)) = None"
proof (rule ccontr)
  have e: "drop k (pre @ z) = drop k pre @ z" for z using k by simp
  assume "match_here apiIdRe (drop k (pre @ ''policies'' @ y)) \<noteq> None"
  then obtain gs where m: "match_here apiIdRe (drop k pre @ ''policies'' @ y) = Some gs"
    unfolding e by blast
  from m[unfolded match_apiId_iff] obtain t1 X
    where L: "drop k pre @ ''policies'' @ y = ''policies'' @ t1 # X" and t1: "t1 \<in> set seps"
    by blast
  have w: "drop k pre \<noteq> []" using k by simp
  have "t1 \<notin> set ''policies''" using t1 policies_no_sep by blast
  from literal_overlap[OF L w this] obtain d' where "drop k pre = ''policies'' @ t1 # d'" ..
  then have "pre = take k pre @ ''policies'' @ t1 # d'" by (metis append_take_drop_id)
  then show False using H t1 by blast
qed

lemma extractApiId_Some_iff:
  "extractApiIdFromPath p = Some a \<longleftrightarrow> regex_match apiIdRe p = Some [a]"
proof
  assume e: "extractApiIdFromPath p = Some a"
  then obtain gs where gs: "regex_match apiIdRe p = Some gs"
    unfolding extractApiIdFromPath_def group1_def by (auto split: option.splits)
  then obtain u v where "p = u @ v" and m: "match_here apiIdRe v = Some gs"
    using regex_match_Some[of apiIdRe p gs] by blast
  from m[unfolded match_apiId_iff] obtain b where "gs = [b]" by blast
  with e gs show "regex_match apiIdRe p = Some [a]"
    unfolding extractApiIdFromPath_def group1_def by simp
next
  assume "regex_match apiIdRe p = Some [a]"
  then show "extractApiIdFromPath p = Some a"
    unfolding extractApiIdFromPath_def group1_def by simp
qed

lemma extractApiId_sound:
  assumes "extractApiIdFromPath p = Some a"
  shows "a \<noteq> [] \<and> (\<forall>c\<in>set a. c \<notin> set seps)
         \<and> (\<exists>pre s1 s2 rest. p = pre @ ''policies'' @ s1 # a @ s2 # rest
               \<and> s1 \<in> set seps \<and> s2 \<in> set seps)"
proof -
  from assms have "regex_match apiIdRe p = Some [a]" unfolding extractApiId_Some_iff .
  then obtain u v where p: "p = u @ v" and m: "match_here apiIdRe v = Some [a]"
    using regex_match_Some by blast
  from m obtain s1 s2 rest where v: "v = ''policies'' @ s1 # a @ s2 # rest"
    and s: "s1 \<in> set seps" "s2 \<in> set seps" and a: "a \<noteq> []" "\<forall>c\<in>set a. c \<notin> set seps"
    unfolding match_apiId_iff by auto
  from p v have "p = u @ ''policies'' @ s1 # a @ s2 # rest" by simp
  with s a show ?thesis by blast
qed

lemma extractApiId_complete:
  assumes H: "\<not> (\<exists>u s v. pre = u @ ''policies'' @ s # v \<and> s \<in> set seps)"
    and s: "s1 \<in> set seps" "s2 \<in> set seps" and a: "a \<noteq> []" "\<forall>c\<in>set a. c \<notin> set seps"
  shows "extractApiIdFromPath (pre @ ''policies'' @ s1 # a @ s2 # rest) = Some a"
proof -
  have "match_here apiIdRe (''policies'' @ s1 # a @ s2 # rest) = Some [a]"
    unfolding match_apiId_iff using s a by blast
  moreover have "\<forall>k < length pre.
      match_here apiIdRe (drop k (pre @ ''policies'' @ s1 # a @ s2 # rest)) = None"
    using no_earlier_match[OF H] by blast
  ultimately have "regex_match apiIdRe (pre @ ''policies'' @ s1 # a @ s2 # rest) = Some [a]"
    by (rule regex_match_leftmost)
  then show ?thesis unfolding extractApiId_Some_iff .
qed

lemma extractApiId_none:
  assumes "\<not> (\<exists>u s1 b s2 v. p = u @ ''policies'' @ s1 # b @ s2 # v \<and> s1 \<in> set seps
              \<and> s2 \<in> set seps \<and> b \<noteq> [] \<and> (\<forall>c\<in>set b. c \<notin> set seps))"
  shows "extractApiIdFromPath p = None"
proof -
  have "\<forall>u v. p = u @ v \<longrightarrow> match_here apiIdRe v = None"
  proof (intro allI impI)
    fix u v assume p: "p = u @ v"
    show "match_here apiIdRe v = None"
    proof (rule ccontr)
      assume "match_here apiIdRe v \<noteq> None"
      then obtain gs where "match_here apiIdRe v = Some gs" by blast
      then obtain s1 b s2 rest where "v = ''policies'' @ s1 # b @ s2 # rest"
        "s1 \<in> set seps" "s2 \<in> set seps" "b \<noteq> []" "\<forall>c\<in>set b. c \<notin> set seps"
        unfolding match_apiId_iff by blast
      with p assms show False by blast
    qed
  qed
  then have "regex_match apiIdRe p = None" by (rule regex_match_None)
  then show ?thesis unfolding extractApiIdFromPath_def group1_def by simp
qed

section \<open>The path classifiers\<close>

text \<open>
  Claim C6 says that \<open>isApiLevelPolicy\<close> and \<open>isOperationLevelPolicy\<close> are never both true.
  The expressions are not anchored at a segment boundary, so the text \<open>policies\<close> that
  ends the API segment \<open>my-policies\<close> starts a match of the API-level shape: on the
  operation-level path \<open>policies/my-policies/operations/api.xml\<close> (API \<open>my-policies\<close>,
  operation \<open>api\<close>) both classifiers are true, and the discovery, which asks
  \<open>isApiLevelPolicy\<close> first, registers the file as the API-level policy of
  \<open>my-policies\<close>.
\<close>

theorem classifiers_overlap:
  "isApiLevelPolicy ''policies/my-policies/operations/api.xml''
   \<and> isOperationLevelPolicy ''policies/my-policies/operations/api.xml''
   \<and> extractOperationIdFromPath ''policies/my-policies/operations/api.xml'' = Some ''api''
   \<and> fst (discoverFile
          \<lparr>policyPattern = (\<lambda>b. b), glob = (\<lambda>p b. Inr []), pathResolve = (\<lambda>b p. p),
           readFile = (\<lambda>p. Inr ''<policies></policies>''),
           parseYaml = (\<lambda>t. Inr MissingPolicies)\<rparr>
          ''.'' ''policies/my-policies/operations/api.xml'')
       = [\<lparr>filePath = ''policies/my-policies/operations/api.xml'', apiId = ''my-policies'',
           operationId = None, scope = Api, content = ''<policies></policies>''\<rparr>]"
  by code_simp

theorem classifiers_overlap_witness:
  "isApiLevelPolicy ''policies/my-policies/operations/api.xml''
   \<and> isOperationLevelPolicy ''policies/my-policies/operations/api.xml''"
  using classifiers_overlap by blast

section \<open>extractApiIdFromPath\<close>

text \<open>
  Claim C7 as stated fails: the expression asks for a separator after the captured
  segment, so a segment that ends the path is not returned; and it is not anchored, so
  the text \<open>policies\<close> need not be a whole segment.
\<close>

theorem extractApiIdFromPath_counterexample:
  "extractApiIdFromPath ''policies/foo'' = None
   \<and> spec_extractApiId ''policies/foo'' = Some ''foo''
   \<and> ''policies'' \<notin> set (split_path ''mypolicies/foo/bar'')
   \<and> extractApiIdFromPath ''mypolicies/foo/bar'' = Some ''foo''"
  by code_simp

text \<open>
  Claim C7, amended. Whatever \<open>extractApiIdFromPath\<close> returns is a non-empty segment
  without separators that stands between two separators right after the text
  \<open>policies\<close>. When a whole segment \<open>policies\<close>, with no \<open>policies\<close> and separator before
  it, is followed by a non-empty segment and a further separator, that segment is
  returned. A path without any occurrence of \<open>policies\<close>, a separator, a non-empty
  segment and a separator gives none.
\<close>

theorem extractApiIdFromPath_grammar:
  "(\<forall>p a. extractApiIdFromPath p = Some a \<longrightarrow>
      a \<noteq> [] \<and> (\<forall>c\<in>set a. c \<notin> set seps)
      \<and> (\<exists>pre s1 s2 rest. p = pre @ ''policies'' @ s1 # a @ s2 # rest
            \<and> s1 \<in> set seps \<and> s2 \<in> set seps))
   \<and> (\<forall>pre s1 a s2 rest.
        (pre = [] \<or> last pre \<in> set seps)
        \<and> \<not> (\<exists>u s v. pre = u @ ''policies'' @ s # v \<and> s \<in> set seps)
        \<and> s1 \<in> set seps \<and> s2 \<in> set seps \<and> a \<noteq> [] \<and> (\<forall>c\<in>set a. c \<notin> set seps)
        \<longrightarrow> extractApiIdFromPath (pre @ ''policies'' @ s1 # a @ s2 # rest) = Some a)
   \<and> (\<forall>p. \<not> (\<exists>u s1 b s2 v. p = u @ ''policies'' @ s1 # b @ s2 # v \<and> s1 \<in> set seps
                \<and> s2 \<in> set seps \<and> b \<noteq> [] \<and> (\<forall>c\<in>set b. c \<notin> set seps))
        \<longrightarrow> extractApiIdFromPath p = None)"
proof (intro conjI allI impI)
  fix p a assume "extractApiIdFromPath p = Some a"
  from extractApiId_sound[OF this] show "a \<noteq> []" and "\<forall>c\<in>set a. c \<notin> set seps"
    and "\<exists>pre s1 s2 rest. p = pre @ ''policies'' @ s1 # a @ s2 # rest
            \<and> s1 \<in> set seps \<and> s2 \<in> set seps"
    by blast+
next
  fix pre s1 a s2 rest
  assume "(pre = [] \<or> last pre \<in> set seps)
        \<and> \<not> (\<exists>u s v. pre = u @ ''policies'' @ s # v \<and> s \<in> set seps)
        \<and> s1 \<in> set seps \<and> s2 \<in> set seps \<and> a \<noteq> [] \<and> (\<forall>c\<in>set a. c \<notin> set seps)"
  then show "extractApiIdFromPath (pre @ ''policies'' @ s1 # a @ s2 # rest) = Some a"
    using extractApiId_complete[of pre s1 s2 a rest] by blast
next
  fix p
  assume "\<not> (\<exists>u s1 b s2 v. p = u @ ''policies'' @ s1 # b @ s2 # v \<and> s1 \<in> set seps
                \<and> s2 \<in> set seps \<and> b \<noteq> [] \<and> (\<forall>c\<in>set b. c \<notin> set seps))"
  then show "extractApiIdFromPath p = None" by (rule extractApiId_none)
qed

theorem extractApiIdFromPath_grammar_witness:
  "last ''repo/'' \<in> set seps
   \<and> extractApiIdFromPath ''repo/policies/my-api/api.xml'' = Some ''my-api''
   \<and> extractApiIdFromPath ''policies/'' = None"
proof -
  have l: "last ''repo/'' \<in> set seps" by (simp add: seps_def)
  have sl: "CHR ''/'' \<in> set seps" by (simp add: seps_def)
  have sf: "\<forall>c\<in>set ''my-api''. c \<notin> set seps" by (simp add: seps_def)
  have h: "\<not> (\<exists>u s v. ''repo/'' = u @ ''policies'' @ s # v \<and> s \<in> set seps)"
  proof
    assume "\<exists>u s v. ''repo/'' = u @ ''policies'' @ s # v \<and> s \<in> set seps"
    then obtain u s v where "''repo/'' = u @ ''policies'' @ s # v" by blast
    then have "length ''repo/'' = length (u @ ''policies'' @ s # v)" by (rule arg_cong)
    then show False by simp
  qed
  have "extractApiIdFromPath (''repo/'' @ ''policies'' @ CHR ''/'' # ''my-api'' @ CHR ''/'' # ''api.xml'')
          = Some ''my-api''"
    using extractApiIdFromPath_grammar[THEN conjunct2, THEN conjunct1, rule_format,
        of "''repo/''" "CHR ''/''" "CHR ''/''" "''my-api''" "''api.xml''"] l sl sf h
    by simp
  then have a: "extractApiIdFromPath ''repo/policies/my-api/api.xml'' = Some ''my-api''" by simp
  have n: "\<not> (\<exists>u s1 b s2 v. ''policies/'' = u @ ''policies'' @ s1 # b @ s2 # v \<and> s1 \<in> set seps
                \<and> s2 \<in> set seps \<and> b \<noteq> [] \<and> (\<forall>c\<in>set b. c \<notin> set seps))"
  proof
    assume "\<exists>u s1 b s2 v. ''policies/'' = u @ ''policies'' @ s1 # b @ s2 # v \<and> s1 \<in> set seps
                \<and> s2 \<in> set seps \<and> b \<noteq> [] \<and> (\<forall>c\<in>set b. c \<notin> set seps)"
    then obtain u s1 b s2 v where "''policies/'' = u @ ''policies'' @ s1 # b @ s2 # v" by blast
    then have "length ''policies/'' = length (u @ ''policies'' @ s1 # b @ s2 # v)" by (rule arg_cong)
    then show False by simp
  qed
  have "extractApiIdFromPath ''policies/'' = None"
    using extractApiIdFromPath_grammar[THEN conjunct2, THEN conjunct2, rule_format,
        of "''policies/''"] n
    by blast
  with l a show ?thesis by blast
qed

section \<open>The aggregate validator\<close>

lemma countPolicies_valid:
  "fst (snd (countPolicies ps m v l)) = (v \<and> (\<forall>p\<in>set ps. validateXmlContent (content p)))"
  by (induction ps arbitrary: m v l) (auto simp: Let_def)

lemma api_count_update:
  "api_count (AList.update k c m) a = (if a = k then api c else api_count m a)"
  by (simp add: api_count_def update_conv')

lemma countPolicies_api:
  "api_count (fst (countPolicies ps m v l)) a = api_count m a + length (api_level_of a ps)"
proof (induction ps arbitrary: m v l)
  case Nil
  then show ?case by (simp add: api_level_of_def)
next
  case (Cons p ps)
  let ?c = "case map_of m (apiId p) of Some c \<Rightarrow> c | None \<Rightarrow> \<lparr>api = 0, operations = 0\<rparr>"
  let ?c' = "if scope p = Api then ?c\<lparr>api := api ?c + 1\<rparr> else ?c\<lparr>operations := operations ?c + 1\<rparr>"
  let ?m' = "AList.update (apiId p) ?c' m"
  have c: "api ?c = api_count m (apiId p)"
    by (simp add: api_count_def split: option.split)
  have step: "api_count ?m' a = api_count m a + length (api_level_of a [p])"
    unfolding api_count_update using c by (simp add: api_level_of_def)
  have "fst (countPolicies (p # ps) m v l) =
          fst (countPolicies ps ?m' (v \<and> validateXmlContent (content p))
                 (if validateXmlContent (content p) then l
                  else l @ [Log Error (''Invalid XML content in policy: '' @ filePath p)]))"
    by (simp add: Let_def)
  then show ?case using Cons.IH step by (simp add: api_level_of_def)
qed

lemma countPolicies_distinct:
  "distinct (map fst m) \<Longrightarrow> distinct (map fst (fst (countPolicies ps m v l)))"
  by (induction ps arbitrary: m v l) (auto simp: Let_def distinct_update)

lemma reportCounts_valid:
  "fst (reportCounts m v l) = (v \<and> (\<forall>(a, c)\<in>set m. api c \<le> 1))"
proof (induction m arbitrary: v l)
  case Nil
  then show ?case by simp
next
  case (Cons x m)
  obtain a c where x: "x = (a, c)" by (cases x)
  show ?case
  proof (cases "1 < api c")
    case True
    then have "fst (reportCounts (x # m) v l) = False"
      unfolding x by (simp add: Let_def Cons.IH)
    with True show ?thesis unfolding x by auto
  next
    case False
    then have "fst (reportCounts (x # m) v l) = (v \<and> (\<forall>(a, c)\<in>set m. api c \<le> 1))"
      unfolding x by (simp add: Let_def Cons.IH)
    with False show ?thesis unfolding x by auto
  qed
qed

lemma api_count_le_iff:
  assumes "distinct (map fst m)"
  shows "(\<forall>(a, c)\<in>set m. api c \<le> 1) \<longleftrightarrow> (\<forall>a. api_count m a \<le> 1)"
proof
  assume h: "\<forall>(a, c)\<in>set m. api c \<le> 1"
  show "\<forall>a. api_count m a \<le> 1"
  proof
    fix a
    show "api_count m a \<le> 1"
    proof (cases "map_of m a")
      case None
      then show ?thesis by (simp add: api_count_def)
    next
      case (Some c)
      then have "(a, c) \<in> set m" by (rule map_of_SomeD)
      with h have "api c \<le> 1" by blast
      with Some show ?thesis by (simp add: api_count_def)
    qed
  qed
next
  assume h: "\<forall>a. api_count m a \<le> 1"
  show "\<forall>(a, c)\<in>set m. api c \<le> 1"
  proof (clarify)
    fix a c assume "(a, c) \<in> set m"
    with assms have "map_of m a = Some c" by simp
    with h[rule_format, of a] show "api c \<le> 1" by (simp add: api_count_def)
  qed
qed

lemma validatePolicies_iff:
  "fst (validatePolicies ps) \<longleftrightarrow>
     ps \<noteq> [] \<and> (\<forall>p\<in>set ps. validateXmlContent (content p))
     \<and> (\<forall>a. length (api_level_of a ps) \<le> 1)"
proof (cases "ps = []")
  case True
  then show ?thesis by (simp add: validatePolicies_def)
next
  case False
  obtain m v l where r: "countPolicies ps [] True [] = (m, v, l)" by (metis prod_cases3)
  have v: "v = (\<forall>p\<in>set ps. validateXmlContent (content p))"
    using countPolicies_valid[of ps "[]" True "[]"] r by simp
  have d: "distinct (map fst m)"
    using countPolicies_distinct[of "[]" ps True "[]"] r by simp
  have a: "api_count m a = length (api_level_of a ps)" for a
    using countPolicies_api[of ps "[]" True "[]" a] r by (simp add: api_count_def)
  have "fst (validatePolicies ps) = fst (reportCounts m v l)"
    using False r by (simp add: validatePolicies_def)
  also have "\<dots> = (v \<and> (\<forall>a. api_count m a \<le> 1))"
    unfolding reportCounts_valid api_count_le_iff[OF d] ..
  finally show ?thesis using False v a by simp
qed

lemma validatePolicies_duplicate:
  assumes "scope p = Api" "scope q = Api" "apiId p = apiId q"
  shows "\<not> fst (validatePolicies (pre @ p # mid @ q # post))"
proof -
  have "2 \<le> length (api_level_of (apiId p) (pre @ p # mid @ q # post))"
    using assms by (simp add: api_level_of_def)
  then have "\<not> length (api_level_of (apiId p) (pre @ p # mid @ q # post)) \<le> 1" by simp
  then show ?thesis unfolding validatePolicies_iff by blast
qed

lemma validatePolicies_api_and_operations:
  assumes "scope p = Api" "validateXmlContent (content p)"
    and "\<forall>d\<in>set ops. scope d = Operation \<and> apiId d = apiId p \<and> validateXmlContent (content d)"
  shows "fst (validatePolicies (p # ops))"
proof -
  have "filter (\<lambda>x. apiId x = a \<and> scope x = Api) ops = []" for a
    using assms(3) by (auto simp: filter_empty_conv)
  then have "length (api_level_of a (p # ops)) \<le> 1" for a
    by (simp add: api_level_of_def)
  then show ?thesis unfolding validatePolicies_iff using assms by simp
qed

text \<open>
  Claim C4. \<open>validatePolicies\<close> returns true exactly when the list is not empty, the
  content of every document passes \<open>validateXmlContent\<close>, and no apiId has more than one
  API-level document. It is false on the empty list and on a list in which two
  API-level documents share an apiId; it is true on one API-level document followed by
  operation-level documents of the same apiId, all with valid content.
\<close>

theorem validatePolicies_correct:
  "(\<forall>ps :: PolicyFile list. fst (validatePolicies ps) \<longleftrightarrow>
      ps \<noteq> [] \<and> (\<forall>p\<in>set ps. validateXmlContent (content p))
      \<and> (\<forall>a. length (api_level_of a ps) \<le> 1))
   \<and> \<not> fst (validatePolicies [])
   \<and> (\<forall>pre (p::PolicyFile) mid q post. scope p = Api \<and> scope q = Api \<and> apiId p = apiId q
        \<longrightarrow> \<not> fst (validatePolicies (pre @ p # mid @ q # post)))
   \<and> (\<forall>(p::PolicyFile) ops. scope p = Api \<and> validateXmlContent (content p)
        \<and> (\<forall>d\<in>set ops. scope d = Operation \<and> apiId d = apiId p
               \<and> validateXmlContent (content d))
        \<longrightarrow> fst (validatePolicies (p # ops)))"
proof (intro conjI allI impI)
  fix ps :: "PolicyFile list"
  show "fst (validatePolicies ps) \<longleftrightarrow>
      ps \<noteq> [] \<and> (\<forall>p\<in>set ps. validateXmlContent (content p))
      \<and> (\<forall>a. length (api_level_of a ps) \<le> 1)"
    by (rule validatePolicies_iff)
next
  show "\<not> fst (validatePolicies [])" by (simp add: validatePolicies_def)
next
  fix pre mid post and p q :: PolicyFile
  assume "scope p = Api \<and> scope q = Api \<and> apiId p = apiId q"
  then show "\<not> fst (validatePolicies (pre @ p # mid @ q # post))"
    using validatePolicies_duplicate by blast
next
  fix p :: PolicyFile and ops :: "PolicyFile list"
  assume "scope p = Api \<and> validateXmlContent (content p)
        \<and> (\<forall>d\<in>set ops. scope d = Operation \<and> apiId d = apiId p
               \<and> validateXmlContent (content d))"
  then show "fst (validatePolicies (p # ops))"
    using validatePolicies_api_and_operations by blast
qed

theorem validatePolicies_correct_witness:
  "fst (validatePolicies
     [\<lparr>filePath = ''a'', apiId = ''sample-api'', operationId = None, scope = Api,
       content = ''<policies></policies>''\<rparr>,
      \<lparr>filePath = ''b'', apiId = ''sample-api'', operationId = Some ''get-users'',
       scope = Operation, content = ''<policies></policies>''\<rparr>,
      \<lparr>filePath = ''c'', apiId = ''sample-api'', operationId = Some ''post-users'',
       scope = Operation, content = ''<policies></policies>''\<rparr>])
   \<and> \<not> fst (validatePolicies
     [\<lparr>filePath = ''a'', apiId = ''sample-api'', operationId = None, scope = Api,
       content = ''<policies></policies>''\<rparr>,
      \<lparr>filePath = ''b'', apiId = ''sample-api'', operationId = None, scope = Api,
       content = ''<policies></policies>''\<rparr>])"
proof -
  have v: "validateXmlContent ''<policies></policies>''" by code_simp
  let ?p = "\<lparr>filePath = ''a'', apiId = ''sample-api'', operationId = None, scope = Api,
       content = ''<policies></policies>''\<rparr>"
  let ?q = "\<lparr>filePath = ''b'', apiId = ''sample-api'', operationId = None, scope = Api,
       content = ''<policies></policies>''\<rparr>"
  let ?ops = "[\<lparr>filePath = ''b'', apiId = ''sample-api'', operationId = Some ''get-users'',
       scope = Operation, content = ''<policies></policies>''\<rparr>,
      \<lparr>filePath = ''c'', apiId = ''sample-api'', operationId = Some ''post-users'',
       scope = Operation, content = ''<policies></policies>''\<rparr>]"
  have 1: "fst (validatePolicies (?p # ?ops))"
    using validatePolicies_correct[THEN conjunct2, THEN conjunct2, THEN conjunct2, rule_format,
        of ?p ?ops] v
    by simp
  have "\<not> fst (validatePolicies ([] @ ?p # [] @ ?q # []))"
    using validatePolicies_correct[THEN conjunct2, THEN conjunct2, THEN conjunct1, rule_format,
        of ?p ?q "[]" "[]" "[]"]
    by simp
  then have 2: "\<not> fst (validatePolicies [?p, ?q])" by simp
  from 1 2 show ?thesis by simp
qed

section \<open>The existence guard of updateApiPolicy\<close>

lemma sdk_writes_append: "sdk_writes (xs @ ys) = sdk_writes xs @ sdk_writes ys"
  by (simp add: sdk_writes_def)

lemma sdk_writes_Log: "sdk_writes [Log lv msg] = []"
  by (simp add: sdk_writes_def)

lemma sdk_writes_emit_Log: "sdk_writes (trace (emit (Log lv msg) w)) = sdk_writes (trace w)"
  by (simp add: emit_def sdk_writes_append sdk_writes_Log)

lemma listApis_writes: "sdk_writes (trace (snd (listApis s cfg w))) = sdk_writes (trace w)"
  by (simp add: listApis_def Let_def emit_def sdk_writes_def split: prod.split sum.split)

lemma listOperations_writes:
  "sdk_writes (trace (snd (listOperations s cfg aid w))) = sdk_writes (trace w)"
  by (simp add: listOperations_def Let_def emit_def sdk_writes_def split: prod.split sum.split)

lemma join_includes: "a \<in> set xs \<Longrightarrow> \<exists>u v. join sep xs = u @ a @ v"
proof (induction sep xs rule: join.induct)
  case (1 sep)
  then show ?case by simp
next
  case (2 sep x)
  then have "join sep [x] = [] @ a @ []" by simp
  then show ?case by blast
next
  case (3 sep x y ys)
  show ?case
  proof (cases "a = x")
    case True
    then have "join sep (x # y # ys) = [] @ a @ (sep @ join sep (y # ys))" by simp
    then show ?thesis by blast
  next
    case False
    with 3 obtain u v where "join sep (y # ys) = u @ a @ v" by auto
    then have "join sep (x # y # ys) = (x @ sep @ u) @ a @ v" by simp
    then show ?thesis by blast
  qed
qed

lemma updateApiPolicy_missing:
  assumes "listApis s cfg w = (apis, w1)" and "aid \<notin> set apis"
  shows "updateApiPolicy s cfg aid xml w =
           (\<lparr>result_apiId = aid, result_operationId = None, updated = False, etag = None,
             error = Some (''API '' @ quoted aid @ '' not found. Available APIs: ''
                           @ join '', '' apis)\<rparr>,
            emit (Log Warning (''API '' @ quoted aid
                               @ '' does not exist in APIM service. Available APIs: ''
                               @ join '', '' apis)) w1)"
  using assms by (simp add: updateApiPolicy_def)

text \<open>
  Claim C3. When the list returned by \<open>listApis\<close> does not contain \<open>apiId\<close>,
  \<open>updateApiPolicy\<close> returns \<open>updated = false\<close> with the message
  \<open>API '<apiId>' not found. Available APIs: <the list, joined by ', '>\<close>, which names
  the apiId and every available API, and no \<open>createOrUpdate\<close> is called.
\<close>

theorem updateApiPolicy_existence_guard:
  "\<forall>s cfg aid xml (w :: 'r world) apis w1.
     listApis s cfg w = (apis, w1) \<and> aid \<notin> set apis \<longrightarrow>
       (let (res, w2) = updateApiPolicy s cfg aid xml w in
          updated res = False
          \<and> result_apiId res = aid
          \<and> etag res = None
          \<and> error res = Some (''API '' @ quoted aid @ '' not found. Available APIs: ''
                               @ join '', '' apis)
          \<and> (\<exists>u v. the (error res) = u @ aid @ v)
          \<and> (\<forall>a\<in>set apis. \<exists>u v. the (error res) = u @ a @ v)
          \<and> sdk_writes (trace w2) = sdk_writes (trace w)
          \<and> remote w2 = remote w1)"
proof (intro allI impI)
  fix s cfg aid xml apis and w w1 :: "'r world"
  assume a: "listApis s cfg w = (apis, w1) \<and> aid \<notin> set apis"
  let ?msg = "''API '' @ quoted aid @ '' not found. Available APIs: '' @ join '', '' apis"
  have n: "\<exists>u v. ?msg = u @ aid @ v"
  proof -
    have "?msg = (''API '' @ [CHR 0x27]) @ aid @ ([CHR 0x27] @ '' not found. Available APIs: ''
                   @ join '', '' apis)"
      by (simp add: quoted_def)
    then show ?thesis by blast
  qed
  have e: "\<forall>a\<in>set apis. \<exists>u v. ?msg = u @ a @ v"
  proof
    fix b assume "b \<in> set apis"
    then obtain u v where "join '', '' apis = u @ b @ v" using join_includes by blast
    then have "?msg = (''API '' @ quoted aid @ '' not found. Available APIs: '' @ u) @ b @ v"
      by simp
    then show "\<exists>u v. ?msg = u @ b @ v" by blast
  qed
  let ?W = "emit (Log Warning (''API '' @ quoted aid
                               @ '' does not exist in APIM service. Available APIs: ''
                               @ join '', '' apis)) w1"
  have "sdk_writes (trace w1) = sdk_writes (trace w)"
    using listApis_writes[of s cfg w] a by simp
  then have w: "sdk_writes (trace ?W) = sdk_writes (trace w)"
    unfolding sdk_writes_emit_Log .
  have r: "remote ?W = remote w1" by (simp add: emit_def)
  have u: "updateApiPolicy s cfg aid xml w =
             (\<lparr>result_apiId = aid, result_operationId = None, updated = False, etag = None,
               error = Some ?msg\<rparr>, ?W)"
    using a by (simp add: updateApiPolicy_missing)
  show "let (res, w2) = updateApiPolicy s cfg aid xml w in
          updated res = False
          \<and> result_apiId res = aid
          \<and> etag res = None
          \<and> error res = Some ?msg
          \<and> (\<exists>u v. the (error res) = u @ aid @ v)
          \<and> (\<forall>a\<in>set apis. \<exists>u v. the (error res) = u @ a @ v)
          \<and> sdk_writes (trace w2) = sdk_writes (trace w)
          \<and> remote w2 = remote w1"
    unfolding u Let_def split_conv PolicyUpdateResult.simps option.sel
    using n e w r by blast
qed


theorem updateApiPolicy_existence_guard_witness:
  "''api1'' \<notin> set (fst (listApis (mock_sdk [''api2'', ''api3''] (\<lambda>a. Inr None)) test_config no_trace))
   \<and> updated (fst (updateApiPolicy (mock_sdk [''api2'', ''api3''] (\<lambda>a. Inr None)) test_config
                    ''api1'' ''<policies></policies>'' no_trace)) = False
   \<and> error (fst (updateApiPolicy (mock_sdk [''api2'', ''api3''] (\<lambda>a. Inr None)) test_config
                    ''api1'' ''<policies></policies>'' no_trace))
       = Some (''API '' @ [CHR 0x27] @ ''api1'' @ [CHR 0x27]
               @ '' not found. Available APIs: api2, api3'')
   \<and> sdk_writes (trace (snd (updateApiPolicy (mock_sdk [''api2'', ''api3''] (\<lambda>a. Inr None))
                    test_config ''api1'' ''<policies></policies>'' no_trace))) = []"
proof -
  let ?s = "mock_sdk [''api2'', ''api3''] (\<lambda>a. Inr None)"
  obtain apis w1 where l: "listApis ?s test_config no_trace = (apis, w1)" by (cases "listApis ?s test_config no_trace")
  have f: "fst (listApis ?s test_config no_trace) = [''api2'', ''api3'']" by code_simp
  with l have apis: "apis = [''api2'', ''api3'']" by simp
  then have n: "''api1'' \<notin> set apis" by simp
  obtain res w2 where u: "updateApiPolicy ?s test_config ''api1'' ''<policies></policies>'' no_trace = (res, w2)"
    by (cases "updateApiPolicy ?s test_config ''api1'' ''<policies></policies>'' no_trace")
  have t: "sdk_writes (trace no_trace) = []" by (simp add: no_trace_def sdk_writes_def)
  from updateApiPolicy_existence_guard[rule_format, of ?s test_config no_trace apis w1 "''api1''"
      "''<policies></policies>''"] l n
  have "updated res = False
        \<and> error res = Some (''API '' @ quoted ''api1'' @ '' not found. Available APIs: ''
                               @ join '', '' apis)
        \<and> sdk_writes (trace w2) = sdk_writes (trace no_trace)"
    unfolding u by simp
  then show ?thesis unfolding u f using apis t by (simp add: quoted_def)
qed

section \<open>The message of a failed write\<close>

lemma directErrorMessage_Error:
  "directErrorMessage (JsError msg r) = spec_extractMessage (JsError msg r)"
  by (auto simp: directErrorMessage_def spec_extractMessage_def truthy_def
      split: option.splits response.splits response_data.splits)

lemma directErrorMessage_NonError: "directErrorMessage (NonError m r) = ''Unknown error''"
  by (simp add: directErrorMessage_def)

lemma updateApiPolicyDirect_failure:
  assumes "apiPolicy_createOrUpdate s (resourceGroupName cfg) (serviceName cfg) aid xml (remote w)
             = (Inl err, r)"
  shows "fst (updateApiPolicyDirect s cfg aid xml w) =
           \<lparr>result_apiId = aid, result_operationId = None, updated = False, etag = None,
            error = Some (directErrorMessage err)\<rparr>"
  using assms by (simp add: updateApiPolicyDirect_def Let_def emit_def)

lemma updateOperationPolicyDirect_failure:
  assumes "apiOperationPolicy_createOrUpdate s (resourceGroupName cfg) (serviceName cfg) aid oid xml
             (remote w) = (Inl err, r)"
  shows "fst (updateOperationPolicyDirect s cfg aid oid xml w) =
           \<lparr>result_apiId = aid, result_operationId = Some oid, updated = False, etag = None,
            error = Some (directErrorMessage err)\<rparr>"
  using assms by (simp add: updateOperationPolicyDirect_def Let_def emit_def)

text \<open>
  Claim C9 as stated fails on a thrown value that is not an instance of \<open>Error\<close>: the
  code reads neither its response payload nor its message, and answers
  \<open>Unknown error\<close>.
\<close>

theorem write_failure_message_counterexample:
  "spec_extractMessage
     (NonError (Some ''boom'') (Some (Response (Some (ResponseData (Some ''quota exceeded'') None)))))
     = ''quota exceeded''
   \<and> error (fst (updateApiPolicyDirect
        (mock_sdk [''api1'']
           (\<lambda>a. Inl (NonError (Some ''boom'')
                   (Some (Response (Some (ResponseData (Some ''quota exceeded'') None)))))))
        test_config ''api1'' ''<policies></policies>'' no_trace))
     = Some ''Unknown error''
   \<and> spec_extractMessage (NonError (Some ''boom'') None) = ''boom''
   \<and> error (fst (updateApiPolicyDirect
        (mock_sdk [''api1''] (\<lambda>a. Inl (NonError (Some ''boom'') None)))
        test_config ''api1'' ''<policies></policies>'' no_trace))
     = Some ''Unknown error''"
  by code_simp

text \<open>
  Claim C9, amended. When the write raises, the result has \<open>updated = false\<close> and no
  etag. If the raised value is an instance of \<open>Error\<close>, the message is chosen by the
  chain: \<open>response.data.error.message\<close> if truthy, else \<open>response.data.message\<close> if
  truthy, else the message of the error. If it is not an instance of \<open>Error\<close>, the
  message is the constant \<open>Unknown error\<close>, whatever the value carries. The same holds
  of the operation-level write.
\<close>

theorem write_failure_message:
  "(\<forall>(s :: 'r sdk) (cfg :: ApimConfig) aid xml (w :: 'r world) err r.
      apiPolicy_createOrUpdate s (resourceGroupName cfg) (serviceName cfg) aid xml (remote w)
        = (Inl err, r) \<longrightarrow>
      (let res = fst (updateApiPolicyDirect s cfg aid xml w) in
         updated res = False \<and> etag res = None
         \<and> (\<forall>msg rsp. err = JsError msg rsp \<longrightarrow>
               error res = Some (spec_extractMessage err)
               \<and> (\<forall>n m. rsp = Some (Response (Some (ResponseData n m))) \<longrightarrow>
                     error res = Some (if truthy n then the n
                                       else if truthy m then the m else msg))
               \<and> (rsp = None \<or> rsp = Some (Response None) \<longrightarrow> error res = Some msg))
         \<and> (\<forall>m rsp. err = NonError m rsp \<longrightarrow> error res = Some ''Unknown error'')))
   \<and> (\<forall>(s :: 'r sdk) (cfg :: ApimConfig) aid oid xml (w :: 'r world) err r.
      apiOperationPolicy_createOrUpdate s (resourceGroupName cfg) (serviceName cfg) aid oid xml
        (remote w) = (Inl err, r) \<longrightarrow>
      (let res = fst (updateOperationPolicyDirect s cfg aid oid xml w) in
         updated res = False \<and> etag res = None
         \<and> (\<forall>msg rsp. err = JsError msg rsp \<longrightarrow> error res = Some (spec_extractMessage err))
         \<and> (\<forall>m rsp. err = NonError m rsp \<longrightarrow> error res = Some ''Unknown error'')))"
proof (intro conjI allI impI)
  fix s :: "'r sdk" and cfg :: ApimConfig and aid xml err r and w :: "'r world"
  assume "apiPolicy_createOrUpdate s (resourceGroupName cfg) (serviceName cfg) aid xml (remote w)
        = (Inl err, r)"
  from updateApiPolicyDirect_failure[OF this]
  show "let res = fst (updateApiPolicyDirect s cfg aid xml w) in
         updated res = False \<and> etag res = None
         \<and> (\<forall>msg rsp. err = JsError msg rsp \<longrightarrow>
               error res = Some (spec_extractMessage err)
               \<and> (\<forall>n m. rsp = Some (Response (Some (ResponseData n m))) \<longrightarrow>
                     error res = Some (if truthy n then the n
                                       else if truthy m then the m else msg))
               \<and> (rsp = None \<or> rsp = Some (Response None) \<longrightarrow> error res = Some msg))
         \<and> (\<forall>m rsp. err = NonError m rsp \<longrightarrow> error res = Some ''Unknown error'')"
    unfolding Let_def
  proof (intro conjI allI impI)
    assume f: "fst (updateApiPolicyDirect s cfg aid xml w) =
           \<lparr>result_apiId = aid, result_operationId = None, updated = False, etag = None,
            error = Some (directErrorMessage err)\<rparr>"
    show "updated (fst (updateApiPolicyDirect s cfg aid xml w)) = False"
      and "etag (fst (updateApiPolicyDirect s cfg aid xml w)) = None"
      unfolding f by simp_all
    {
      fix msg rsp assume e: "err = JsError msg rsp"
      show "error (fst (updateApiPolicyDirect s cfg aid xml w)) = Some (spec_extractMessage err)"
        unfolding f e by (simp add: directErrorMessage_Error)
      {
        fix n m assume "rsp = Some (Response (Some (ResponseData n m)))"
        then show "error (fst (updateApiPolicyDirect s cfg aid xml w))
                     = Some (if truthy n then the n else if truthy m then the m else msg)"
          unfolding f e by (simp add: directErrorMessage_def)
      }
      {
        assume "rsp = None \<or> rsp = Some (Response None)"
        then show "error (fst (updateApiPolicyDirect s cfg aid xml w)) = Some msg"
          unfolding f e by (auto simp: directErrorMessage_def)
      }
    }
    {
      fix m rsp assume e: "err = NonError m rsp"
      show "error (fst (updateApiPolicyDirect s cfg aid xml w)) = Some ''Unknown error''"
        unfolding f e by (simp add: directErrorMessage_NonError)
    }
  qed
next
  fix s :: "'r sdk" and cfg :: ApimConfig and aid oid xml err r and w :: "'r world"
  assume "apiOperationPolicy_createOrUpdate s (resourceGroupName cfg) (serviceName cfg) aid oid xml
        (remote w) = (Inl err, r)"
  from updateOperationPolicyDirect_failure[OF this]
  show "let res = fst (updateOperationPolicyDirect s cfg aid oid xml w) in
         updated res = False \<and> etag res = None
         \<and> (\<forall>msg rsp. err = JsError msg rsp \<longrightarrow> error res = Some (spec_extractMessage err))
         \<and> (\<forall>m rsp. err = NonError m rsp \<longrightarrow> error res = Some ''Unknown error'')"
    by (auto simp: Let_def directErrorMessage_Error directErrorMessage_NonError)
qed


theorem write_failure_message_witness:
  "updated (fst (updateApiPolicyDirect
      (mock_sdk [''api1'']
         (\<lambda>a. Inl (JsError ''Request failed''
                 (Some (Response (Some (ResponseData (Some ''Detailed Azure error'') None)))))))
      test_config ''api1'' ''<policies></policies>'' no_trace)) = False
   \<and> error (fst (updateApiPolicyDirect
      (mock_sdk [''api1'']
         (\<lambda>a. Inl (JsError ''Request failed''
                 (Some (Response (Some (ResponseData (Some ''Detailed Azure error'') None)))))))
      test_config ''api1'' ''<policies></policies>'' no_trace)) = Some ''Detailed Azure error''"
proof -
  let ?err = "JsError ''Request failed''
                 (Some (Response (Some (ResponseData (Some ''Detailed Azure error'') None))))"
  let ?s = "mock_sdk [''api1''] (\<lambda>a. Inl ?err)"
  have c: "apiPolicy_createOrUpdate ?s (resourceGroupName test_config) (serviceName test_config)
             ''api1'' ''<policies></policies>'' (remote no_trace) = (Inl ?err, ())"
    by (simp add: mock_sdk_def)
  have t: "truthy (Some ''Detailed Azure error'')" by (simp add: truthy_def)
  from write_failure_message[THEN conjunct1, rule_format, OF c]
  have "updated (fst (updateApiPolicyDirect ?s test_config ''api1'' ''<policies></policies>'' no_trace)) = False
        \<and> error (fst (updateApiPolicyDirect ?s test_config ''api1'' ''<policies></policies>'' no_trace))
            = Some (if truthy (Some ''Detailed Azure error'') then the (Some ''Detailed Azure error'')
                    else if truthy None then the None else ''Request failed'')"
    unfolding Let_def by blast
  then show ?thesis using t by simp
qed

section \<open>The orchestrator\<close>

lemma say_simps:
  "events (say evs st) = events st @ evs"
  "outcomes (say evs st) = outcomes st"
  "client_state (say evs st) = client_state st"
  by (simp_all add: say_def)

lemma ask_simps:
  "fst (ask c f st) = fst (f (client_state st))"
  "events (snd (ask c f st)) = events st @ [ClientCall c]"
  "outcomes (snd (ask c f st)) = outcomes st"
  by (simp_all add: ask_def split: prod.split)

lemma update_calls_append: "update_calls (xs @ ys) = update_calls xs @ update_calls ys"
  by (simp add: update_calls_def)

lemma update_calls_Nil: "update_calls [] = []"
  by (simp add: update_calls_def)

lemma update_calls_quiet: "list_all is_log evs \<Longrightarrow> update_calls evs = []"
  by (induction evs) (auto simp: update_calls_def is_log_def split: event.splits)

lemma update_calls_call: "update_calls [ClientCall c] = (if is_update c then [c] else [])"
  by (simp add: update_calls_def)

lemma is_update_call_of: "is_update (update_call_of p)"
  by (simp add: is_update_def update_call_of_def)

lemma published_append:
  "published n (xs @ ys) = (case published n ys of Some v \<Rightarrow> Some v | None \<Rightarrow> published n xs)"
  by (induction xs) (auto split: option.splits)

lemma published_quiet: "list_all is_quiet evs \<Longrightarrow> published n evs = None"
  by (induction evs) (auto simp: is_quiet_def split: event.splits option.splits)

lemma published_append_quiet: "list_all is_quiet ys \<Longrightarrow> published n (xs @ ys) = published n xs"
  by (simp add: published_append published_quiet)

lemma run_failed_append: "run_failed (xs @ ys) = (run_failed xs \<or> run_failed ys)"
  by (auto simp: run_failed_def)

lemma run_failed_quiet: "list_all is_quiet evs \<Longrightarrow> \<not> run_failed evs"
  by (induction evs) (auto simp: run_failed_def is_quiet_def split: event.splits)

lemma is_log_quiet: "list_all is_log evs \<Longrightarrow> list_all is_quiet evs"
  by (induction evs) (auto simp: is_log_def is_quiet_def split: event.splits)

text \<open>One iteration of the loop, summarised.\<close>

lemma processPolicy_step:
  "\<exists>res logs.
     outcomes (snd (processPolicy cl p tag st)) = outcomes st @ [res]
     \<and> events (snd (processPolicy cl p tag st)) = events st @ ClientCall (update_call_of p) # logs
     \<and> list_all is_log logs
     \<and> fst (processPolicy cl p tag st)
         = (if applied_tokens [res] = [] then tag else last (applied_tokens [res]))"
proof -
  let ?a = "if scope p = Api then
              ask (UpdateApiPolicy (apiId p) (content p))
                (call_updateApiPolicy cl (apiId p) (content p)) st
            else
              ask (UpdateOperationPolicy (apiId p) (operationId p) (content p))
                (call_updateOperationPolicy cl (apiId p) (operationId p) (content p)) st"
  obtain res st0 where a: "?a = (res, st0)" by (cases ?a)
  have e0: "events st0 = events st @ [ClientCall (update_call_of p)]"
    using a ask_simps(2)[of "UpdateApiPolicy (apiId p) (content p)"
                          "call_updateApiPolicy cl (apiId p) (content p)" st]
            ask_simps(2)[of "UpdateOperationPolicy (apiId p) (operationId p) (content p)"
                          "call_updateOperationPolicy cl (apiId p) (operationId p) (content p)" st]
    by (auto simp: update_call_of_def split: if_splits)
  have o0: "outcomes st0 = outcomes st"
    using a ask_simps(3)[of "UpdateApiPolicy (apiId p) (content p)"
                          "call_updateApiPolicy cl (apiId p) (content p)" st]
            ask_simps(3)[of "UpdateOperationPolicy (apiId p) (operationId p) (content p)"
                          "call_updateOperationPolicy cl (apiId p) (operationId p) (content p)" st]
    by (auto split: if_splits)
  have u: "processPolicy cl p tag st =
     (let st1 = st0\<lparr>outcomes := outcomes st0 @ [res]\<rparr> in
      case res of
        Inl err \<Rightarrow>
          (tag,
           say [Log Error (''Error processing policy '' @ filePath p @ '': ''
                           @ errorMessageOf err)] st1)
      | Inr result \<Rightarrow>
          if updated result then
            (if truthy (etag result) then the (etag result) else tag,
             say [Log Info (''Successfully updated '' @ show_scope (scope p)
                            @ '' policy: '' @ policyName p)] st1)
          else if truthy (error result) then
            (tag,
             say [Log Error (''Failed to update '' @ show_scope (scope p)
                             @ '' policy: '' @ policyName p @ '' - ''
                             @ the (error result))] st1)
          else (tag, st1))"
    unfolding processPolicy_def a by simp
  show ?thesis
  proof (cases res)
    case (Inl err)
    then show ?thesis unfolding u
      by (intro exI[of _ res] exI[of _ "[Log Error (''Error processing policy '' @ filePath p @ '': ''
                           @ errorMessageOf err)]"])
         (simp add: say_simps e0 o0 is_log_def applied_tokens_def)
  next
    case (Inr result)
    show ?thesis
    proof (cases "updated result")
      case True
      then show ?thesis unfolding u Inr
        by (intro exI[of _ "Inr result"] exI[of _ "[Log Info (''Successfully updated '' @ show_scope (scope p)
                            @ '' policy: '' @ policyName p)]"])
           (simp add: say_simps e0 o0 is_log_def applied_tokens_def)
    next
      case False
      show ?thesis
      proof (cases "truthy (error result)")
        case True
        with False show ?thesis unfolding u Inr
          by (intro exI[of _ "Inr result"] exI[of _ "[Log Error (''Failed to update '' @ show_scope (scope p)
                             @ '' policy: '' @ policyName p @ '' - ''
                             @ the (error result))]"])
             (simp add: say_simps e0 o0 is_log_def applied_tokens_def)
      next
        case f: False
        with False show ?thesis unfolding u Inr
          by (intro exI[of _ "Inr result"] exI[of _ "[]"])
             (simp add: say_simps e0 o0 is_log_def applied_tokens_def)
      qed
    qed
  qed
qed


lemma applied_tokens_append: "applied_tokens (xs @ ys) = applied_tokens xs @ applied_tokens ys"
  by (simp add: applied_tokens_def)

lemma applied_tokens_Cons: "applied_tokens (x # xs) = applied_tokens [x] @ applied_tokens xs"
  by (simp add: applied_tokens_def)

lemma applied_tokens_single: "length (applied_tokens [x]) \<le> 1"
  by (simp add: applied_tokens_def split: sum.split)

lemma is_quiet_call: "is_quiet (ClientCall c)"
  by (simp add: is_quiet_def)

lemma processPolicies_summary:
  "\<exists>outs evs.
     outcomes (snd (processPolicies cl ps tag st)) = outcomes st @ outs
     \<and> length outs = length ps
     \<and> events (snd (processPolicies cl ps tag st)) = events st @ evs
     \<and> list_all is_quiet evs
     \<and> update_calls evs = map update_call_of ps
     \<and> fst (processPolicies cl ps tag st)
         = (if applied_tokens outs = [] then tag else last (applied_tokens outs))"
proof (induction ps arbitrary: tag st)
  case Nil
  have "outcomes (snd (processPolicies cl [] tag st)) = outcomes st @ []
        \<and> length ([] :: (thrown + PolicyUpdateResult) list) = length ([] :: PolicyFile list)
        \<and> events (snd (processPolicies cl [] tag st)) = events st @ []
        \<and> list_all is_quiet [] \<and> update_calls [] = map update_call_of []
        \<and> fst (processPolicies cl [] tag st)
            = (if applied_tokens [] = [] then tag else last (applied_tokens []))"
    by (simp add: update_calls_Nil applied_tokens_def)
  then show ?case by blast
next
  case (Cons p ps)
  obtain tag1 st1 where s: "processPolicy cl p tag st = (tag1, st1)" by (cases "processPolicy cl p tag st")
  from processPolicy_step[of cl p tag st] obtain res logs where
    o1: "outcomes st1 = outcomes st @ [res]"
    and e1: "events st1 = events st @ ClientCall (update_call_of p) # logs"
    and l1: "list_all is_log logs"
    and t1: "tag1 = (if applied_tokens [res] = [] then tag else last (applied_tokens [res]))"
    unfolding s by auto
  from Cons.IH[of tag1 st1] obtain outs evs where
    o2: "outcomes (snd (processPolicies cl ps tag1 st1)) = outcomes st1 @ outs"
    and n2: "length outs = length ps"
    and e2: "events (snd (processPolicies cl ps tag1 st1)) = events st1 @ evs"
    and q2: "list_all is_quiet evs"
    and u2: "update_calls evs = map update_call_of ps"
    and t2: "fst (processPolicies cl ps tag1 st1)
         = (if applied_tokens outs = [] then tag1 else last (applied_tokens outs))"
    by blast
  have r: "processPolicies cl (p # ps) tag st = processPolicies cl ps tag1 st1"
    using s by simp
  let ?outs = "res # outs" and ?evs = "ClientCall (update_call_of p) # logs @ evs"
  have a: "outcomes (snd (processPolicies cl (p # ps) tag st)) = outcomes st @ ?outs"
    unfolding r o2 o1 by simp
  have b: "length ?outs = length (p # ps)" using n2 by simp
  have c: "events (snd (processPolicies cl (p # ps) tag st)) = events st @ ?evs"
    unfolding r e2 e1 by simp
  have d: "list_all is_quiet ?evs"
    using q2 is_log_quiet[OF l1] by (simp add: is_quiet_call)
  have "update_calls ?evs = update_calls [ClientCall (update_call_of p)] @ update_calls logs
                             @ update_calls evs"
    using update_calls_append[of "[ClientCall (update_call_of p)]" "logs @ evs"]
          update_calls_append[of logs evs] by simp
  then have e: "update_calls ?evs = map update_call_of (p # ps)"
    using u2 update_calls_quiet[OF l1] by (simp add: update_calls_call is_update_call_of)
  have "fst (processPolicies cl (p # ps) tag st)
         = (if applied_tokens outs = [] then tag1 else last (applied_tokens outs))"
    using r t2 by simp
  also have "\<dots> = (if applied_tokens [res] @ applied_tokens outs = [] then tag
                      else last (applied_tokens [res] @ applied_tokens outs))"
    unfolding t1 by (simp add: last_append)
  finally have f: "fst (processPolicies cl (p # ps) tag st)
         = (if applied_tokens ?outs = [] then tag else last (applied_tokens ?outs))"
    unfolding applied_tokens_Cons[of res outs] .
  from a b c d e f show ?case by blast
qed

lemma is_prelude_quiet: "list_all is_prelude evs \<Longrightarrow> list_all is_quiet evs"
  by (induction evs) (auto simp: is_prelude_def is_quiet_def split: event.splits)

lemma is_prelude_no_update: "list_all is_prelude evs \<Longrightarrow> update_calls evs = []"
  by (induction evs) (auto simp: is_prelude_def update_calls_def split: event.splits)

lemma is_log_prelude: "list_all is_log evs \<Longrightarrow> list_all is_prelude evs"
  by (induction evs) (auto simp: is_log_def is_prelude_def split: event.splits)

lemma listFirstOperations_summary:
  "\<exists>evs. events (snd (listFirstOperations cl as st)) = events st @ evs
         \<and> list_all is_prelude evs
         \<and> outcomes (snd (listFirstOperations cl as st)) = outcomes st"
proof (induction as arbitrary: st)
  case Nil
  have "events (snd (listFirstOperations cl [] st)) = events st @ [] \<and> list_all is_prelude []
        \<and> outcomes (snd (listFirstOperations cl [] st)) = outcomes st" by simp
  then show ?case by blast
next
  case (Cons aid rest)
  let ?a = "ask (ListOperations aid) (call_listOperations cl aid) st"
  obtain res st1 where a: "?a = (res, st1)" by (cases ?a)
  have e1: "events st1 = events st @ [ClientCall (ListOperations aid)]"
    using ask_simps(2)[of "ListOperations aid" "call_listOperations cl aid" st] a by simp
  have o1: "outcomes st1 = outcomes st"
    using ask_simps(3)[of "ListOperations aid" "call_listOperations cl aid" st] a by simp
  have p1: "is_prelude (ClientCall (ListOperations aid))"
    by (simp add: is_prelude_def is_update_def)
  show ?case
  proof (cases res)
    case (Inl err)
    then have "listFirstOperations cl (aid # rest) st = (Some err, st1)" using a by simp
    then have "events (snd (listFirstOperations cl (aid # rest) st))
                 = events st @ [ClientCall (ListOperations aid)]
               \<and> list_all is_prelude [ClientCall (ListOperations aid)]
               \<and> outcomes (snd (listFirstOperations cl (aid # rest) st)) = outcomes st"
      using e1 o1 p1 by simp
    then show ?thesis by blast
  next
    case (Inr ops)
    let ?line = "if length ops > 0
                  then Log Info (''API '' @ quoted aid @ '' operations: '' @ join '', '' ops)
                  else Log Info (''API '' @ quoted aid @ '' has no operations'')"
    have r: "listFirstOperations cl (aid # rest) st = listFirstOperations cl rest (say [?line] st1)"
      using a Inr by simp
    from Cons.IH[of "say [?line] st1"] obtain evs where
      e2: "events (snd (listFirstOperations cl rest (say [?line] st1)))
             = events (say [?line] st1) @ evs"
      and q2: "list_all is_prelude evs"
      and o2: "outcomes (snd (listFirstOperations cl rest (say [?line] st1)))
             = outcomes (say [?line] st1)"
      by blast
    have pl: "is_prelude ?line" by (simp add: is_prelude_def)
    have "events (snd (listFirstOperations cl (aid # rest) st))
            = events st @ (ClientCall (ListOperations aid) # ?line # evs)
          \<and> list_all is_prelude (ClientCall (ListOperations aid) # ?line # evs)
          \<and> outcomes (snd (listFirstOperations cl (aid # rest) st)) = outcomes st"
      unfolding r e2 o2 say_simps e1 o1 using q2 p1 pl by simp
    then show ?thesis by blast
  qed
qed


lemma extends_refl: "extends st st"
  by (simp add: extends_def)

lemma extends_trans: "extends a b \<Longrightarrow> extends b c \<Longrightarrow> extends a c"
proof -
  assume "extends a b" and "extends b c"
  then obtain e1 e2 where "events b = events a @ e1" "list_all is_prelude e1"
    "outcomes b = outcomes a" "events c = events b @ e2" "list_all is_prelude e2"
    "outcomes c = outcomes b"
    unfolding extends_def by blast
  then have "events c = events a @ (e1 @ e2) \<and> list_all is_prelude (e1 @ e2)
             \<and> outcomes c = outcomes a" by simp
  then show "extends a c" unfolding extends_def by blast
qed

lemma extends_say: "extends s0 st \<Longrightarrow> list_all is_prelude evs \<Longrightarrow> extends s0 (say evs st)"
proof (rule extends_trans)
  assume "list_all is_prelude evs"
  then show "extends st (say evs st)" unfolding extends_def by (auto simp: say_simps)
qed

lemma extends_ask:
  assumes "ask c f st = (res, st')" and "\<not> is_update c" and "extends s0 st"
  shows "extends s0 st'"
proof (rule extends_trans[OF assms(3)])
  have "events st' = events st @ [ClientCall c]" "outcomes st' = outcomes st"
    using ask_simps(2,3)[of c f st] assms(1) by simp_all
  moreover have "list_all is_prelude [ClientCall c]" using assms(2) by (simp add: is_prelude_def)
  ultimately show "extends st st'" unfolding extends_def by blast
qed

lemma extends_listFirstOperations:
  assumes "listFirstOperations cl as st = (res, st')" and "extends s0 st"
  shows "extends s0 st'"
proof (rule extends_trans[OF assms(2)])
  show "extends st st'"
    using listFirstOperations_summary[of cl as st] assms(1) unfolding extends_def by simp
qed

lemma parseInputs_logs: "list_all is_log (snd (parseInputs gi))"
  by (simp add: parseInputs_def is_log_def split: sum.split)

lemma not_update_simps: "\<not> is_update TestConnection" "\<not> is_update ListApis"
  by (simp_all add: is_update_def)

lemma connect_summary: "extends st (snd (connect gi mk st))"
proof -
  let ?st0 = "say [Log Info ''Starting Azure API Management Policy Update action...''] st"
  obtain pr lines where p: "parseInputs gi = (pr, lines)" by (cases "parseInputs gi")
  have "list_all is_prelude lines" using parseInputs_logs[of gi] p by (simp add: is_log_prelude)
  then have x1: "extends st (say lines ?st0)"
    by (intro extends_say extends_refl) (simp_all add: is_prelude_def)
  show ?thesis
  proof (cases pr)
    case (Inl err)
    then have "snd (connect gi mk st) = say lines ?st0" by (simp add: connect_def p)
    with x1 show ?thesis by simp
  next
    case (Inr config)
    let ?cl = "mk config"
    obtain ct st1 where a1: "ask TestConnection (call_testConnection ?cl) (say lines ?st0) = (ct, st1)"
      by (cases "ask TestConnection (call_testConnection ?cl) (say lines ?st0)")
    have x2: "extends st st1" using extends_ask[OF a1 not_update_simps(1) x1] .
    let ?st1' = "say [Log Info ''Listing available APIs in APIM service...''] st1"
    obtain la st2 where a2: "ask ListApis (call_listApis ?cl) ?st1' = (la, st2)"
      by (cases "ask ListApis (call_listApis ?cl) ?st1'")
    have "extends st ?st1'" by (intro extends_say x2) (simp add: is_prelude_def)
    then have x3: "extends st st2" using extends_ask[OF a2 not_update_simps(2)] by blast
    show ?thesis
    proof (cases ct)
      case (Inl err)
      then have "snd (connect gi mk st) = st1" by (simp add: connect_def p Inr a1)
      with x2 show ?thesis by simp
    next
      case ctr: (Inr connectionTest)
      show ?thesis
      proof (cases connectionTest)
        case False
        then have "snd (connect gi mk st) = st1" by (simp add: connect_def p Inr a1 ctr)
        with x2 show ?thesis by simp
      next
        case True
        show ?thesis
        proof (cases la)
          case (Inl err)
          then have "snd (connect gi mk st) = st2" by (simp add: connect_def p Inr a1 ctr True a2)
          with x3 show ?thesis by simp
        next
          case lar: (Inr availableApis)
          show ?thesis
          proof (cases "length availableApis > 0")
            case False
            then have "snd (connect gi mk st) = say [Log Warning ''No APIs found in APIM service''] st2"
              by (simp add: connect_def p Inr a1 ctr True a2 lar)
            moreover have "extends st (say [Log Warning ''No APIs found in APIM service''] st2)"
              by (intro extends_say x3) (simp add: is_prelude_def)
            ultimately show ?thesis by simp
          next
            case nonempty: True
            let ?st2' = "say [Log Info (''Available APIs: '' @ join '', '' availableApis)] st2"
            obtain r st3 where l: "listFirstOperations ?cl (take 3 availableApis) ?st2' = (r, st3)"
              by (cases "listFirstOperations ?cl (take 3 availableApis) ?st2'")
            have "extends st ?st2'" by (intro extends_say x3) (simp add: is_prelude_def)
            then have x4: "extends st st3" using extends_listFirstOperations[OF l] by blast
            have "snd (connect gi mk st) = st3"
              using nonempty l by (cases r) (simp_all add: connect_def Let_def p Inr a1 ctr True a2 lar)
            with x4 show ?thesis by simp
          qed
        qed
      qed
    qed
  qed
qed


section \<open>What the discovery returns\<close>

lemma discoverFile_logs: "list_all is_log (snd (discoverFile e b p))"
  by (simp add: discoverFile_def Let_def is_log_def split: sum.split)

lemma discoverFile_scope: "list_all operationId_matches_scope (fst (discoverFile e b p))"
  by (simp add: discoverFile_def Let_def operationId_matches_scope_def truthy_def
      split: sum.split option.split)

lemma discoverFiles_logs: "list_all is_log (snd (discoverFiles e b ps))"
  by (induction ps) (simp_all add: Let_def case_prod_beta discoverFile_logs)

lemma discoverFiles_scope: "list_all operationId_matches_scope (fst (discoverFiles e b ps))"
  by (induction ps) (simp_all add: Let_def case_prod_beta discoverFile_scope)

lemma discoverPoliciesFromDefaultStructure_logs:
  "list_all is_log (snd (discoverPoliciesFromDefaultStructure e b))"
  by (simp add: discoverPoliciesFromDefaultStructure_def Let_def case_prod_beta is_log_def
      discoverFiles_logs split: sum.split)

lemma discoverPoliciesFromDefaultStructure_scope:
  "list_all operationId_matches_scope (fst (discoverPoliciesFromDefaultStructure e b))"
  by (simp add: discoverPoliciesFromDefaultStructure_def Let_def case_prod_beta
      discoverFiles_scope split: sum.split)

lemma loadPolicyManifest_logs: "list_all is_log (snd (loadPolicyManifest e mp))"
  by (simp add: loadPolicyManifest_def Let_def is_log_def split: sum.split manifest_doc.split)

lemma manifestApiPolicy_logs: "list_all is_log (fst (snd (manifestApiPolicy e b aid p)))"
  by (simp add: manifestApiPolicy_def Let_def is_log_def
      split: option.split pathval.split sum.split)

lemma manifestApiPolicy_scope:
  "list_all operationId_matches_scope (fst (manifestApiPolicy e b aid p))"
  by (simp add: manifestApiPolicy_def Let_def operationId_matches_scope_def
      split: option.split pathval.split sum.split)

lemma manifestOperations_logs: "list_all is_log (fst (snd (manifestOperations e b aid ops)))"
  by (induction e b aid ops rule: manifestOperations.induct)
     (simp_all add: Let_def case_prod_beta is_log_def split: sum.split)

lemma manifestOperations_scope:
  "list_all operationId_matches_scope (fst (manifestOperations e b aid ops))"
  by (induction e b aid ops rule: manifestOperations.induct)
     (simp_all add: Let_def case_prod_beta operationId_matches_scope_def split: sum.split)

lemma manifestEntry_logs: "list_all is_log (snd (manifestEntry e b aid c))"
proof (cases c)
  case (NullEntry err)
  then show ?thesis by (simp add: manifestEntry_def is_log_def)
next
  case (Entry p ops)
  obtain f l r where a: "manifestApiPolicy e b aid p = (f, l, r)" by (metis prod_cases3)
  have la: "list_all is_log l" using manifestApiPolicy_logs[of e b aid p] a by simp
  show ?thesis
  proof (cases r)
    case (Some err)
    then show ?thesis using la by (simp add: manifestEntry_def Entry a is_log_def)
  next
    case None
    show ?thesis
    proof (cases ops)
      case n: None
      then show ?thesis using la None by (simp add: manifestEntry_def Entry a)
    next
      case (Some entries)
      obtain f' l' r' where o: "manifestOperations e b aid entries = (f', l', r')"
        by (metis prod_cases3)
      have lo: "list_all is_log l'" using manifestOperations_logs[of e b aid entries] o by simp
      show ?thesis using la lo None Some
        by (cases r') (simp_all add: manifestEntry_def Entry a o is_log_def)
    qed
  qed
qed

lemma manifestEntry_scope: "list_all operationId_matches_scope (fst (manifestEntry e b aid c))"
proof (cases c)
  case (NullEntry err)
  then show ?thesis by (simp add: manifestEntry_def)
next
  case (Entry p ops)
  obtain f l r where a: "manifestApiPolicy e b aid p = (f, l, r)" by (metis prod_cases3)
  have la: "list_all operationId_matches_scope f"
    using manifestApiPolicy_scope[of e b aid p] a by simp
  show ?thesis
  proof (cases r)
    case (Some err)
    then show ?thesis using la by (simp add: manifestEntry_def Entry a)
  next
    case None
    show ?thesis
    proof (cases ops)
      case n: None
      then show ?thesis using la None by (simp add: manifestEntry_def Entry a)
    next
      case (Some entries)
      obtain f' l' r' where o: "manifestOperations e b aid entries = (f', l', r')"
        by (metis prod_cases3)
      have lo: "list_all operationId_matches_scope f'"
        using manifestOperations_scope[of e b aid entries] o by simp
      show ?thesis using la lo None Some
        by (cases r') (simp_all add: manifestEntry_def Entry a o)
    qed
  qed
qed

lemma manifestEntries_logs: "list_all is_log (snd (manifestEntries e b es))"
  by (induction es) (auto simp: Let_def case_prod_beta manifestEntry_logs)

lemma manifestEntries_scope: "list_all operationId_matches_scope (fst (manifestEntries e b es))"
  by (induction es) (auto simp: Let_def case_prod_beta manifestEntry_scope)

lemma discoverPoliciesFromManifest_logs:
  "list_all is_log (snd (discoverPoliciesFromManifest e mp b))"
proof -
  obtain m l where a: "loadPolicyManifest e mp = (m, l)" by (cases "loadPolicyManifest e mp")
  have "list_all is_log l" using loadPolicyManifest_logs[of e mp] a by simp
  then show ?thesis
    by (cases m) (simp_all add: discoverPoliciesFromManifest_def a Let_def case_prod_beta
        manifestEntries_logs)
qed

lemma discoverPoliciesFromManifest_scope:
  "list_all operationId_matches_scope (fst (discoverPoliciesFromManifest e mp b))"
proof -
  obtain m l where a: "loadPolicyManifest e mp = (m, l)" by (cases "loadPolicyManifest e mp")
  show ?thesis
    by (cases m) (simp_all add: discoverPoliciesFromManifest_def a Let_def case_prod_beta
        manifestEntries_scope)
qed

lemma discoverPolicies_logs: "list_all is_log (snd (discoverPolicies e mp b))"
  by (simp add: discoverPolicies_def Let_def case_prod_beta is_log_def
      discoverPoliciesFromManifest_logs discoverPoliciesFromDefaultStructure_logs)

lemma discoverPolicies_scope:
  "list_all operationId_matches_scope (fst (discoverPolicies e mp b))"
  by (simp add: discoverPolicies_def Let_def case_prod_beta
      discoverPoliciesFromManifest_scope discoverPoliciesFromDefaultStructure_scope)

lemma countPolicies_logs:
  "list_all is_log l \<Longrightarrow> list_all is_log (snd (snd (countPolicies ps m v l)))"
  by (induction ps arbitrary: m v l) (auto simp: Let_def is_log_def)

lemma reportCounts_logs:
  "list_all is_log l \<Longrightarrow> list_all is_log (snd (reportCounts m v l))"
  by (induction m arbitrary: v l) (auto simp: Let_def is_log_def)

lemma validatePolicies_logs: "list_all is_log (snd (validatePolicies ps))"
proof (cases "ps = []")
  case True
  then show ?thesis by (simp add: validatePolicies_def is_log_def)
next
  case False
  obtain m v l where c: "countPolicies ps [] True [] = (m, v, l)" by (metis prod_cases3)
  have "list_all is_log l" using countPolicies_logs[of "[]" ps "[]" True] c by simp
  then have "list_all is_log (snd (reportCounts m v l))" by (rule reportCounts_logs)
  then show ?thesis using False c by (simp add: validatePolicies_def)
qed


section \<open>The four ways a run ends\<close>

lemma run_connect_failed:
  assumes "connect gi mk (initial c0) = (Inl err, st)"
  shows "run gi e mk c0 =
           say [SetFailed (case err of JsError msg r \<Rightarrow> msg
                           | NonError m r \<Rightarrow> ''An unknown error occurred''),
                SetOutput ''etag'' []] st"
  using assms by (simp add: run_def initial_def)

lemma run_nothing_found:
  assumes "connect gi mk (initial c0) = (Inr (config, cl), st)"
    and "discoverPolicies e (policyManifestPath config) ''.'' = ([], lines)"
  shows "run gi e mk c0 =
           say [Log Warning ''No policy files found to update'', SetOutput ''etag'' []]
             (say (Log Info ''Discovering policy files...'' # lines) st)"
  using assms by (simp add: run_def initial_def update_def)

lemma run_invalid:
  assumes "connect gi mk (initial c0) = (Inr (config, cl), st)"
    and "discoverPolicies e (policyManifestPath config) ''.'' = (ps, lines)"
    and "ps \<noteq> []" and "validatePolicies ps = (False, lines')"
  shows "run gi e mk c0 =
           say [SetFailed ''Policy validation failed'', SetOutput ''etag'' []]
             (say lines' (say (Log Info ''Discovering policy files...'' # lines) st))"
  using assms by (simp add: run_def initial_def update_def)

lemma run_updates:
  assumes "connect gi mk (initial c0) = (Inr (config, cl), st)"
    and "discoverPolicies e (policyManifestPath config) ''.'' = (ps, lines)"
    and "ps \<noteq> []" and "validatePolicies ps = (True, lines')"
    and "processPolicies cl ps []
           (say (lines' @ [Log Info (''Found '' @ show_nat (length ps)
                                     @ '' valid policy files to process''),
                           Log Info ''Starting policy updates...''])
              (say (Log Info ''Discovering policy files...'' # lines) st)) = (tag, st2)"
  shows "run gi e mk c0 =
           say [SetOutput ''etag'' tag, Log Info ''Action completed successfully''] st2"
  using assms by (simp add: run_def initial_def update_def)

lemma extends_initial:
  assumes "extends (initial c0) st"
  shows "list_all is_prelude (events st) \<and> outcomes st = []"
  using assms by (auto simp: extends_def initial_def)

lemma connect_initial:
  assumes "connect gi mk (initial c0) = (res, st)"
  shows "list_all is_prelude (events st)" and "outcomes st = []"
  using extends_initial[of c0 st] connect_summary[of "initial c0" gi mk] assms by simp_all

lemma published_last: "published n (xs @ [SetOutput n v]) = Some v"
  by (simp add: published_append)

lemma published_last_log: "published n (xs @ [SetOutput n v, Log lv m]) = Some v"
  by (simp add: published_append)

lemma published_failed: "published n (xs @ [SetFailed m, SetOutput n v]) = Some v"
  by (simp add: published_append)

lemma run_failed_last: "run_failed (xs @ [SetFailed m, SetOutput n v])"
  by (simp add: run_failed_def)

lemma not_run_failed_prelude: "list_all is_prelude xs \<Longrightarrow> \<not> run_failed xs"
  by (simp add: is_prelude_quiet run_failed_quiet)

lemma spec_lastEtag_Nil: "spec_lastEtag [] = []"
  by (simp add: spec_lastEtag_def applied_tokens_def)

lemma update_calls_tails:
  "update_calls [SetFailed m, SetOutput n v] = []"
  "update_calls [Log lv m, SetOutput n v] = []"
  "update_calls [SetOutput n v, Log lv m] = []"
  by (simp_all add: update_calls_def)

lemma run_failed_tails:
  "\<not> run_failed [Log lv m, SetOutput n v]"
  "\<not> run_failed [SetOutput n v, Log lv m]"
  by (simp_all add: run_failed_def)

text \<open>What every run satisfies, whichever way it ends.\<close>

lemma run_summary:
  "published ''etag'' (events (run gi e mk c0)) = Some (spec_lastEtag (outcomes (run gi e mk c0)))
   \<and> (run_failed (events (run gi e mk c0)) \<longrightarrow> outcomes (run gi e mk c0) = [])
   \<and> (update_calls (events (run gi e mk c0)) = []
       \<or> (\<exists>config :: ApimConfig. update_calls (events (run gi e mk c0))
             = map update_call_of (fst (discoverPolicies e (policyManifestPath config) ''.''))))"
proof -
  obtain res st where c: "connect gi mk (initial c0) = (res, st)"
    by (cases "connect gi mk (initial c0)")
  note p0 = connect_initial[OF c]
  show ?thesis
  proof (cases res)
    case (Inl err)
    note r = run_connect_failed[OF c[unfolded Inl], of e]
    show ?thesis unfolding r say_simps
      using p0 by (simp add: published_failed spec_lastEtag_Nil update_calls_append
          is_prelude_no_update update_calls_tails)
  next
    case (Inr pair)
    obtain config cl where pair: "pair = (config, cl)" by (cases pair)
    note c' = c[unfolded Inr pair]
    obtain ps lines where d: "discoverPolicies e (policyManifestPath config) ''.'' = (ps, lines)"
      by (cases "discoverPolicies e (policyManifestPath config) ''.''")
    have dl: "list_all is_prelude lines"
      using discoverPolicies_logs[of e "policyManifestPath config" "''.''"] d
      by (simp add: is_log_prelude)
    let ?st1 = "say (Log Info ''Discovering policy files...'' # lines) st"
    have p1: "list_all is_prelude (events ?st1)" "outcomes ?st1 = []"
      using p0 dl by (simp_all add: say_simps is_prelude_def)
    show ?thesis
    proof (cases "ps = []")
      case True
      note r = run_nothing_found[OF c' d[unfolded True]]
      have "\<not> run_failed (events ?st1 @ [Log Warning ''No policy files found to update'',
                                         SetOutput ''etag'' []])"
        using not_run_failed_prelude[OF p1(1)] by (simp add: run_failed_append run_failed_tails)
      then show ?thesis unfolding r say_simps(1)[of _ ?st1] say_simps(2)[of _ ?st1]
        using p1 by (simp add: published_append spec_lastEtag_Nil update_calls_append
            is_prelude_no_update update_calls_tails)
    next
      case False
      obtain v lines' where vp: "validatePolicies ps = (v, lines')" by (cases "validatePolicies ps")
      have vl: "list_all is_prelude lines'"
        using validatePolicies_logs[of ps] vp by (simp add: is_log_prelude)
      show ?thesis
      proof (cases v)
        case f: False
        from vp f have vp': "validatePolicies ps = (False, lines')" by simp
        note r = run_invalid[OF c' d False vp']
        let ?st2 = "say lines' ?st1"
        have p2: "list_all is_prelude (events ?st2)" "outcomes ?st2 = []"
          using p1 vl by (simp_all add: say_simps)
        show ?thesis unfolding r say_simps(1)[of _ ?st2] say_simps(2)[of _ ?st2]
          using p2 by (simp add: published_failed spec_lastEtag_Nil update_calls_append
              is_prelude_no_update update_calls_tails)
      next
        case True
        let ?st2 = "say (lines' @ [Log Info (''Found '' @ show_nat (length ps)
                                     @ '' valid policy files to process''),
                           Log Info ''Starting policy updates...'']) ?st1"
        have p2: "list_all is_prelude (events ?st2)" "outcomes ?st2 = []"
          using p1 vl by (simp_all add: say_simps is_prelude_def)
        obtain tag st3 where pp: "processPolicies cl ps [] ?st2 = (tag, st3)"
          by (cases "processPolicies cl ps [] ?st2")
        from vp True have vp': "validatePolicies ps = (True, lines')" by simp
        note r = run_updates[OF c' d False vp' pp]
        from processPolicies_summary[of cl ps "[]" ?st2] obtain outs evs where
          o: "outcomes st3 = outs" and e3: "events st3 = events ?st2 @ evs"
          and q: "list_all is_quiet evs" and u: "update_calls evs = map update_call_of ps"
          and t: "tag = spec_lastEtag outs"
          unfolding pp spec_lastEtag_def using p2(2) by auto
        have nf: "\<not> run_failed (events st3 @ [SetOutput ''etag'' tag,
                                               Log Info ''Action completed successfully''])"
          unfolding e3 using not_run_failed_prelude[OF p2(1)] run_failed_quiet[OF q]
          by (simp add: run_failed_append run_failed_tails)
        have uc: "update_calls (events st3 @ [SetOutput ''etag'' tag,
                                               Log Info ''Action completed successfully''])
                    = map update_call_of ps"
          unfolding e3 using u is_prelude_no_update[OF p2(1)]
          by (simp add: update_calls_append update_calls_tails)
        have "update_calls (events st3 @ [SetOutput ''etag'' tag,
                                               Log Info ''Action completed successfully''])
             = map update_call_of (fst (discoverPolicies e (policyManifestPath config) ''.''))"
          unfolding uc d by simp
        then have ex: "\<exists>config :: ApimConfig. update_calls (events st3 @ [SetOutput ''etag'' tag,
                                               Log Info ''Action completed successfully''])
             = map update_call_of (fst (discoverPolicies e (policyManifestPath config) ''.''))"
          by (rule exI[of _ config])
        have pb: "published ''etag'' (events st3 @ [SetOutput ''etag'' tag,
                                               Log Info ''Action completed successfully''])
                    = Some (spec_lastEtag outs)"
          unfolding t by (rule published_last_log)
        show ?thesis unfolding r say_simps(1)[of _ st3] say_simps(2)[of _ st3] o
          using nf ex pb by blast
      qed
    qed
  qed
qed

section \<open>Runs of the client of the source\<close>

lemma listFirstOperations_azure: "fst (listFirstOperations (AzureApimClient s cfg) as st) = None"
proof (induction as arbitrary: st)
  case Nil
  then show ?case by simp
next
  case (Cons aid rest)
  show ?case
    by (simp add: ask_def AzureApimClient_def returns_def case_prod_beta
        Cons.IH[unfolded AzureApimClient_def returns_def])
qed

lemma connect_azure:
  assumes "fst (parseInputs gi) = Inr config"
    and "\<And>w. fst (testConnection s config w)"
  shows "fst (connect gi (AzureApimClient s) st) = Inr (config, AzureApimClient s config)"
proof -
  obtain lines where p: "parseInputs gi = (Inr config, lines)"
    using assms(1) by (cases "parseInputs gi") simp
  have l: "fst (listFirstOperations (AzureApimClient s config) as st') = None" for as st'
    by (rule listFirstOperations_azure)
  have a1: "fst (ask TestConnection (call_testConnection (AzureApimClient s config)) st') = Inr True"
    for st'
    using assms(2) by (simp add: ask_simps AzureApimClient_def returns_def)
  have a2: "\<exists>apis. fst (ask ListApis (call_listApis (AzureApimClient s config)) st') = Inr apis"
    for st'
    by (simp add: ask_simps AzureApimClient_def returns_def)
  let ?st0 = "say lines (say [Log Info ''Starting Azure API Management Policy Update action...''] st)"
  obtain st1 where t: "ask TestConnection (call_testConnection (AzureApimClient s config)) ?st0
                        = (Inr True, st1)"
    using a1[of ?st0] by (metis prod.collapse)
  let ?st1 = "say [Log Info ''Listing available APIs in APIM service...''] st1"
  obtain apis st2 where la: "ask ListApis (call_listApis (AzureApimClient s config)) ?st1
                        = (Inr apis, st2)"
    using a2[of ?st1] by (metis prod.collapse)
  show ?thesis
  proof (cases "length apis > 0")
    case False
    then show ?thesis using t la by (simp add: connect_def p Let_def)
  next
    case True
    let ?st2 = "say [Log Info (''Available APIs: '' @ join '', '' apis)] st2"
    obtain st3 where lf: "listFirstOperations (AzureApimClient s config) (take 3 apis) ?st2
                           = (None, st3)"
      using l[of "take 3 apis" ?st2] by (metis prod.collapse)
    show ?thesis using True t la lf by (simp add: connect_def p Let_def)
  qed
qed

lemma mock_updateApiPolicy:
  "fst (updateApiPolicy (mock_sdk apis write) cfg aid xml w) =
     (if aid \<in> set (truthy_names (map Some apis)) then
        (case write aid of
           Inr eTag \<Rightarrow> \<lparr>result_apiId = aid, result_operationId = None, updated = True,
                        etag = Some (or_empty eTag), error = None\<rparr>
         | Inl err \<Rightarrow> \<lparr>result_apiId = aid, result_operationId = None, updated = False,
                       etag = None, error = Some (directErrorMessage err)\<rparr>)
      else \<lparr>result_apiId = aid, result_operationId = None, updated = False, etag = None,
             error = Some (''API '' @ quoted aid @ '' not found. Available APIs: ''
                           @ join '', '' (truthy_names (map Some apis)))\<rparr>)"
  by (simp add: updateApiPolicy_def listApis_def updateApiPolicyDirect_def mock_sdk_def
      Let_def emit_def case_prod_beta split: sum.split)

lemma scenario_apis: "truthy_names (map Some [''api1'', ''api2'']) = [''api1'', ''api2'']"
  by (simp add: truthy_names_def truthy_def)

lemma scenario_update_api1:
  "fst (updateApiPolicy scenario_sdk cfg ''api1'' xml w) =
     \<lparr>result_apiId = ''api1'', result_operationId = None, updated = False, etag = None,
      error = Some ''boom''\<rparr>"
  unfolding scenario_sdk_def mock_updateApiPolicy scenario_apis
  by (simp add: directErrorMessage_def)

lemma scenario_update_api2:
  "fst (updateApiPolicy scenario_sdk cfg ''api2'' xml w) =
     \<lparr>result_apiId = ''api2'', result_operationId = None, updated = True,
      etag = Some ''etag-2'', error = None\<rparr>"
  unfolding scenario_sdk_def mock_updateApiPolicy scenario_apis
  by (simp add: or_empty_def truthy_def)

text \<open>The loop on an API-level document, with the client of the source.\<close>

lemma processPolicy_azure_api:
  assumes "scope p = Api"
  shows "processPolicy (AzureApimClient s cfg) p tag st =
     (let r = fst (updateApiPolicy s cfg (apiId p) (content p) (client_state st));
          st1 = st\<lparr>client_state :=
                      snd (updateApiPolicy s cfg (apiId p) (content p) (client_state st)),
                    events := events st @ [ClientCall (UpdateApiPolicy (apiId p) (content p))],
                    outcomes := outcomes st @ [Inr r]\<rparr>
      in if updated r then
           (if truthy (etag r) then the (etag r) else tag,
            say [Log Info (''Successfully updated '' @ show_scope (scope p)
                           @ '' policy: '' @ policyName p)] st1)
         else if truthy (error r) then
           (tag,
            say [Log Error (''Failed to update '' @ show_scope (scope p)
                            @ '' policy: '' @ policyName p @ '' - '' @ the (error r))] st1)
         else (tag, st1))"
  using assms
  by (simp add: processPolicy_def ask_def AzureApimClient_def returns_def case_prod_beta Let_def)

lemma scenario_discovery: "fst (discoverPolicies scenario_files None ''.'') = [scenario_doc1, scenario_doc2]"
  unfolding scenario_files_def scenario_doc1_def scenario_doc2_def by code_simp

lemma scenario_loop:
  "outcomes (snd (processPolicies (AzureApimClient scenario_sdk cfg) [scenario_doc1, scenario_doc2] [] st))
     = outcomes st @
       [Inr \<lparr>result_apiId = ''api1'', result_operationId = None, updated = False, etag = None,
              error = Some ''boom''\<rparr>,
        Inr \<lparr>result_apiId = ''api2'', result_operationId = None, updated = True,
              etag = Some ''etag-2'', error = None\<rparr>]"
  "Log Error ''Failed to update api policy: api1 - boom''
     \<in> set (events (snd (processPolicies (AzureApimClient scenario_sdk cfg) [scenario_doc1, scenario_doc2] [] st)))"
  by (simp_all add: processPolicy_azure_api scenario_doc1_def scenario_doc2_def scenario_update_api1
      scenario_update_api2 Let_def say_def truthy_def show_scope_def policyName_def)


lemma scenario_validation: "fst (validatePolicies [scenario_doc1, scenario_doc2])"
  unfolding scenario_doc1_def scenario_doc2_def by code_simp

lemma scenario_connect:
  "fst (connect test_inputs (AzureApimClient scenario_sdk) st)
     = Inr (test_config, AzureApimClient scenario_sdk test_config)"
proof (rule connect_azure)
  show "fst (parseInputs test_inputs) = Inr test_config"
    by (simp add: parseInputs_def test_inputs_def test_config_def)
  show "fst (testConnection scenario_sdk test_config w)" for w
    by (simp add: testConnection_def scenario_sdk_def mock_sdk_def Let_def)
qed

lemma scenario_c_unfold:
  "\<exists>st. outcomes st = [] \<and>
     scenario_c =
       say [SetOutput ''etag''
              (fst (processPolicies (AzureApimClient scenario_sdk test_config)
                      [scenario_doc1, scenario_doc2] [] st)),
            Log Info ''Action completed successfully'']
         (snd (processPolicies (AzureApimClient scenario_sdk test_config)
                 [scenario_doc1, scenario_doc2] [] st))"
proof -
  let ?cl = "AzureApimClient scenario_sdk test_config"
  obtain st where c: "connect test_inputs (AzureApimClient scenario_sdk) (initial no_trace)
                        = (Inr (test_config, ?cl), st)"
    using scenario_connect[of "initial no_trace"] by (metis prod.collapse)
  have mp: "policyManifestPath test_config = None" by (simp add: test_config_def)
  obtain lines where d: "discoverPolicies scenario_files (policyManifestPath test_config) ''.''
                           = ([scenario_doc1, scenario_doc2], lines)"
    unfolding mp using scenario_discovery by (metis prod.collapse)
  obtain lines' where v: "validatePolicies [scenario_doc1, scenario_doc2] = (True, lines')"
    using scenario_validation by (metis prod.collapse)
  let ?st2 = "say (lines' @ [Log Info (''Found '' @ show_nat (length [scenario_doc1, scenario_doc2])
                                     @ '' valid policy files to process''),
                           Log Info ''Starting policy updates...''])
              (say (Log Info ''Discovering policy files...'' # lines) st)"
  have o: "outcomes ?st2 = []" using connect_initial(2)[OF c] by (simp add: say_simps)
  obtain tag st3 where pp: "processPolicies ?cl [scenario_doc1, scenario_doc2] [] ?st2 = (tag, st3)"
    by (cases "processPolicies ?cl [scenario_doc1, scenario_doc2] [] ?st2")
  have ne: "[scenario_doc1, scenario_doc2] \<noteq> []" by simp
  from run_updates[OF c d ne v pp]
  have "scenario_c = say [SetOutput ''etag'' tag, Log Info ''Action completed successfully''] st3"
    unfolding scenario_c_def .
  then have "outcomes ?st2 = [] \<and> scenario_c =
       say [SetOutput ''etag'' (fst (processPolicies ?cl [scenario_doc1, scenario_doc2] [] ?st2)),
            Log Info ''Action completed successfully'']
         (snd (processPolicies ?cl [scenario_doc1, scenario_doc2] [] ?st2))"
    using o pp by simp
  then show ?thesis by blast
qed

lemma scenario_c_outcomes:
  "outcomes scenario_c =
     [Inr \<lparr>result_apiId = ''api1'', result_operationId = None, updated = False, etag = None,
            error = Some ''boom''\<rparr>,
      Inr \<lparr>result_apiId = ''api2'', result_operationId = None, updated = True,
            etag = Some ''etag-2'', error = None\<rparr>]"
proof -
  let ?cl = "AzureApimClient scenario_sdk test_config"
  from scenario_c_unfold obtain st where o: "outcomes st = []" and
    e: "scenario_c =
       say [SetOutput ''etag'' (fst (processPolicies ?cl [scenario_doc1, scenario_doc2] [] st)),
            Log Info ''Action completed successfully'']
         (snd (processPolicies ?cl [scenario_doc1, scenario_doc2] [] st))"
    by blast
  have "outcomes scenario_c = outcomes (snd (processPolicies ?cl [scenario_doc1, scenario_doc2] [] st))"
    unfolding e by (rule say_simps(2))
  then show ?thesis unfolding scenario_loop(1) o by simp
qed


section \<open>Failure isolation\<close>







section \<open>The published etag\<close>

lemma applied_tokens_none:
  assumes "\<forall>out\<in>set outs. case out of Inl err \<Rightarrow> True | Inr r \<Rightarrow> \<not> updated r"
  shows "applied_tokens outs = []"
  using assms by (induction outs) (auto simp: applied_tokens_def split: sum.splits)

lemma processPolicies_tag:
  "fst (processPolicies cl ps tag st)
     = (let outs = drop (length (outcomes st)) (outcomes (snd (processPolicies cl ps tag st)))
        in if applied_tokens outs = [] then tag else last (applied_tokens outs))"
proof -
  from processPolicies_summary[of cl ps tag st] obtain outs where
    "outcomes (snd (processPolicies cl ps tag st)) = outcomes st @ outs"
    "fst (processPolicies cl ps tag st)
       = (if applied_tokens outs = [] then tag else last (applied_tokens outs))"
    by blast
  then show ?thesis by (simp add: Let_def)
qed

text \<open>One iteration, in terms of what the client call returned.\<close>

lemma processPolicy_call:
  assumes "update_on cl p (client_state st) = (res, cs)"
  shows "outcomes (snd (processPolicy cl p tag st)) = outcomes st @ [res]"
    and "client_state (snd (processPolicy cl p tag st)) = cs"
    and "fst (processPolicy cl p tag st)
           = (case res of
                Inl err \<Rightarrow> tag
              | Inr result \<Rightarrow>
                  if updated result \<and> truthy (etag result) then the (etag result) else tag)"
  using assms
  by (auto simp: processPolicy_def update_on_def ask_def say_def Let_def
      split: if_splits sum.splits)

lemma applied_tokens_one:
  "(if applied_tokens [res] = [] then tag else last (applied_tokens [res]))
     = (case res of
          Inl err \<Rightarrow> tag
        | Inr result \<Rightarrow>
            if updated result \<and> truthy (etag result) then the (etag result) else tag)"
  by (simp add: applied_tokens_def split: sum.split)

lemma processPolicies_call_results:
  "outcomes (snd (processPolicies cl ps tag st))
     = outcomes st @ call_results cl ps (client_state st)
   \<and> fst (processPolicies cl ps tag st)
       = (if applied_tokens (call_results cl ps (client_state st)) = [] then tag
          else last (applied_tokens (call_results cl ps (client_state st))))"
proof (induction ps arbitrary: tag st)
  case Nil
  then show ?case by (simp add: applied_tokens_def)
next
  case (Cons p ps)
  obtain res cs where u: "update_on cl p (client_state st) = (res, cs)"
    by (cases "update_on cl p (client_state st)")
  obtain tag1 st1 where s: "processPolicy cl p tag st = (tag1, st1)"
    by (cases "processPolicy cl p tag st")
  note c = processPolicy_call[OF u, of tag, unfolded s fst_conv snd_conv]
  have t1: "tag1 = (if applied_tokens [res] = [] then tag else last (applied_tokens [res]))"
    unfolding applied_tokens_one using c(3) .
  have r: "processPolicies cl (p # ps) tag st = processPolicies cl ps tag1 st1"
    using s by simp
  have cr: "call_results cl (p # ps) (client_state st) = res # call_results cl ps cs"
    using u by simp
  let ?rest = "call_results cl ps cs"
  from Cons.IH[of tag1 st1]
  have o: "outcomes (snd (processPolicies cl ps tag1 st1)) = outcomes st1 @ ?rest"
    and f: "fst (processPolicies cl ps tag1 st1)
              = (if applied_tokens ?rest = [] then tag1 else last (applied_tokens ?rest))"
    unfolding c(2) by blast+
  have a: "outcomes (snd (processPolicies cl (p # ps) tag st))
             = outcomes st @ call_results cl (p # ps) (client_state st)"
    unfolding r o cr c(1) by simp
  have "fst (processPolicies cl (p # ps) tag st)
          = (if applied_tokens [res] @ applied_tokens ?rest = [] then tag
             else last (applied_tokens [res] @ applied_tokens ?rest))"
    unfolding r f by (simp add: t1 last_append)
  then have b: "fst (processPolicies cl (p # ps) tag st)
       = (if applied_tokens (call_results cl (p # ps) (client_state st)) = [] then tag
          else last (applied_tokens (call_results cl (p # ps) (client_state st))))"
    unfolding cr applied_tokens_Cons[of res ?rest] .
  from a b show ?case by blast
qed

lemma run_updates_etag:
  assumes c: "connect gi mk (initial c0) = (Inr (config, cl), st)"
    and d: "discoverPolicies e (policyManifestPath config) ''.'' = (ps, lines)"
    and ne: "ps \<noteq> []" and v: "validatePolicies ps = (True, lines')"
  shows "outcomes (run gi e mk c0) = call_results cl ps (client_state st)"
    and "published ''etag'' (events (run gi e mk c0))
           = Some (spec_lastEtag (call_results cl ps (client_state st)))"
proof -
  let ?st2 = "say (lines' @ [Log Info (''Found '' @ show_nat (length ps)
                                     @ '' valid policy files to process''),
                           Log Info ''Starting policy updates...''])
                (say (Log Info ''Discovering policy files...'' # lines) st)"
  have o2: "outcomes ?st2 = []" using connect_initial(2)[OF c] by (simp add: say_simps)
  have c2: "client_state ?st2 = client_state st" by (simp add: say_simps)
  obtain tag st3 where pp: "processPolicies cl ps [] ?st2 = (tag, st3)"
    by (cases "processPolicies cl ps [] ?st2")
  note r = run_updates[OF c d ne v pp]
  from processPolicies_call_results[of cl ps "[]" ?st2]
  have o3: "outcomes st3 = call_results cl ps (client_state st)"
    and t: "tag = spec_lastEtag (call_results cl ps (client_state st))"
    unfolding pp fst_conv snd_conv o2 c2 spec_lastEtag_def by simp_all
  show "outcomes (run gi e mk c0) = call_results cl ps (client_state st)"
    unfolding r say_simps(2)[of _ st3] o3 ..
  show "published ''etag'' (events (run gi e mk c0))
           = Some (spec_lastEtag (call_results cl ps (client_state st)))"
    unfolding r say_simps(1)[of _ st3] t by (rule published_last_log)
qed

text \<open>The run on the service where both writes succeed.\<close>

lemma succeeding_results:
  "call_results (AzureApimClient succeeding_sdk cfg) [scenario_doc1, scenario_doc2] w =
     [Inr \<lparr>result_apiId = ''api1'', result_operationId = None, updated = True,
            etag = Some ''etag-of-api1'', error = None\<rparr>,
      Inr \<lparr>result_apiId = ''api2'', result_operationId = None, updated = True,
            etag = Some ''etag-of-api2'', error = None\<rparr>]"
  by (simp add: update_on_def AzureApimClient_def returns_def case_prod_beta succeeding_sdk_def
      mock_updateApiPolicy truthy_names_def scenario_doc1_def scenario_doc2_def or_empty_def
      truthy_def)

lemma succeeding_connect:
  "fst (connect test_inputs (AzureApimClient succeeding_sdk) st)
     = Inr (test_config, AzureApimClient succeeding_sdk test_config)"
proof (rule connect_azure)
  show "fst (parseInputs test_inputs) = Inr test_config"
    by (simp add: parseInputs_def test_inputs_def test_config_def)
  show "fst (testConnection succeeding_sdk test_config w)" for w
    by (simp add: testConnection_def succeeding_sdk_def mock_sdk_def Let_def)
qed

text \<open>
  Claim C2. The \<open>etag\<close> a run publishes is the token of the last successful result, in
  iteration order, whose token is not empty, and the empty string when there is none:
  in particular when the run was reported failed and when no update succeeded. The loop
  carries the token recorded so far through every iteration that brings no new one.
  The results are those the client returned: an iteration records the result of its
  call and takes its token when the result is successful with a non-empty token, and a
  run that reaches the loop publishes the last such token among the answers of the
  client to the update calls of the discovered documents.
\<close>

theorem final_etag_contract:
  "(\<forall>gi e (mk :: ApimConfig \<Rightarrow> 'c client) c0.
      published ''etag'' (events (run gi e mk c0))
        = Some (spec_lastEtag (outcomes (run gi e mk c0)))
      \<and> (run_failed (events (run gi e mk c0))
           \<longrightarrow> published ''etag'' (events (run gi e mk c0)) = Some [])
      \<and> ((\<forall>out\<in>set (outcomes (run gi e mk c0)).
             case out of Inl err \<Rightarrow> True | Inr r \<Rightarrow> \<not> updated r)
           \<longrightarrow> published ''etag'' (events (run gi e mk c0)) = Some []))
   \<and> (\<forall>(cl :: 'c client) ps tag st.
        fst (processPolicies cl ps tag st)
          = (let outs = drop (length (outcomes st)) (outcomes (snd (processPolicies cl ps tag st)))
             in if applied_tokens outs = [] then tag else last (applied_tokens outs)))
   \<and> (\<forall>(cl :: 'c client) (p :: PolicyFile) tag (st :: 'c run_state) res cs.
        update_on cl p (client_state st) = (res, cs)
        \<longrightarrow> outcomes (snd (processPolicy cl p tag st)) = outcomes st @ [res]
            \<and> client_state (snd (processPolicy cl p tag st)) = cs
            \<and> fst (processPolicy cl p tag st)
                = (case res of
                     Inl err \<Rightarrow> tag
                   | Inr result \<Rightarrow>
                       if updated result \<and> truthy (etag result) then the (etag result)
                       else tag))
   \<and> (\<forall>(cl :: 'c client) ps tag st.
        outcomes (snd (processPolicies cl ps tag st))
          = outcomes st @ call_results cl ps (client_state st)
        \<and> fst (processPolicies cl ps tag st)
            = (if applied_tokens (call_results cl ps (client_state st)) = [] then tag
               else last (applied_tokens (call_results cl ps (client_state st)))))
   \<and> (\<forall>gi e (mk :: ApimConfig \<Rightarrow> 'c client) c0 (config :: ApimConfig) cl st ps lines lines'.
        connect gi mk (initial c0) = (Inr (config, cl), st)
        \<and> discoverPolicies e (policyManifestPath config) ''.'' = (ps, lines)
        \<and> ps \<noteq> [] \<and> validatePolicies ps = (True, lines')
        \<longrightarrow> outcomes (run gi e mk c0) = call_results cl ps (client_state st)
            \<and> published ''etag'' (events (run gi e mk c0))
                = Some (spec_lastEtag (call_results cl ps (client_state st))))"
proof (intro conjI allI impI)
  fix gi e c0 and mk :: "ApimConfig \<Rightarrow> 'c client"
  note s = run_summary[of gi e mk c0]
  show p: "published ''etag'' (events (run gi e mk c0))
        = Some (spec_lastEtag (outcomes (run gi e mk c0)))"
    using s by blast
  {
    assume "run_failed (events (run gi e mk c0))"
    with s have "outcomes (run gi e mk c0) = []" by blast
    then show "published ''etag'' (events (run gi e mk c0)) = Some []"
      unfolding p by (simp add: spec_lastEtag_Nil)
  }
  {
    assume "\<forall>out\<in>set (outcomes (run gi e mk c0)).
             case out of Inl err \<Rightarrow> True | Inr r \<Rightarrow> \<not> updated r"
    then have "applied_tokens (outcomes (run gi e mk c0)) = []" by (rule applied_tokens_none)
    then show "published ''etag'' (events (run gi e mk c0)) = Some []"
      unfolding p by (simp add: spec_lastEtag_def)
  }
next
  fix cl :: "'c client" and ps tag st
  show "fst (processPolicies cl ps tag st)
          = (let outs = drop (length (outcomes st)) (outcomes (snd (processPolicies cl ps tag st)))
             in if applied_tokens outs = [] then tag else last (applied_tokens outs))"
    by (rule processPolicies_tag)
next
  fix cl :: "'c client" and p :: PolicyFile and tag res cs and st :: "'c run_state"
  assume u: "update_on cl p (client_state st) = (res, cs)"
  show "outcomes (snd (processPolicy cl p tag st)) = outcomes st @ [res]"
    and "client_state (snd (processPolicy cl p tag st)) = cs"
    and "fst (processPolicy cl p tag st)
                = (case res of
                     Inl err \<Rightarrow> tag
                   | Inr result \<Rightarrow>
                       if updated result \<and> truthy (etag result) then the (etag result)
                       else tag)"
    using processPolicy_call[OF u] by blast+
next
  fix cl :: "'c client" and ps tag st
  show "outcomes (snd (processPolicies cl ps tag st))
          = outcomes st @ call_results cl ps (client_state st)"
    and "fst (processPolicies cl ps tag st)
            = (if applied_tokens (call_results cl ps (client_state st)) = [] then tag
               else last (applied_tokens (call_results cl ps (client_state st))))"
    using processPolicies_call_results[of cl ps tag st] by blast+
next
  fix gi e c0 cl st ps lines lines' and config :: ApimConfig
    and mk :: "ApimConfig \<Rightarrow> 'c client"
  assume "connect gi mk (initial c0) = (Inr (config, cl), st)
        \<and> discoverPolicies e (policyManifestPath config) ''.'' = (ps, lines)
        \<and> ps \<noteq> [] \<and> validatePolicies ps = (True, lines')"
  then have c: "connect gi mk (initial c0) = (Inr (config, cl), st)"
    and d: "discoverPolicies e (policyManifestPath config) ''.'' = (ps, lines)"
    and ne: "ps \<noteq> []" and v: "validatePolicies ps = (True, lines')" by blast+
  show "outcomes (run gi e mk c0) = call_results cl ps (client_state st)"
    and "published ''etag'' (events (run gi e mk c0))
                = Some (spec_lastEtag (call_results cl ps (client_state st)))"
    using run_updates_etag[OF c d ne v] by blast+
qed

theorem final_etag_contract_witness:
  "published ''etag'' (events scenario_c) = Some ''etag-2''
   \<and> run_failed (events (run (\<lambda>name required. Inr []) scenario_files
                            (AzureApimClient scenario_sdk) no_trace))
   \<and> published ''etag'' (events (run (\<lambda>name required. Inr []) scenario_files
                                    (AzureApimClient scenario_sdk) no_trace)) = Some []
   \<and> outcomes (run test_inputs scenario_files (AzureApimClient succeeding_sdk) no_trace)
       = [Inr \<lparr>result_apiId = ''api1'', result_operationId = None, updated = True,
               etag = Some ''etag-of-api1'', error = None\<rparr>,
          Inr \<lparr>result_apiId = ''api2'', result_operationId = None, updated = True,
               etag = Some ''etag-of-api2'', error = None\<rparr>]
   \<and> published ''etag'' (events (run test_inputs scenario_files
                                    (AzureApimClient succeeding_sdk) no_trace))
       = Some ''etag-of-api2''"
proof -
  have "spec_lastEtag (outcomes scenario_c) = ''etag-2''"
    unfolding scenario_c_outcomes by (simp add: spec_lastEtag_def applied_tokens_def truthy_def)
  moreover have "published ''etag'' (events scenario_c) = Some (spec_lastEtag (outcomes scenario_c))"
    using final_etag_contract[THEN conjunct1, rule_format,
        of test_inputs scenario_files "AzureApimClient scenario_sdk" no_trace]
    unfolding scenario_c_def by blast
  ultimately have 1: "published ''etag'' (events scenario_c) = Some ''etag-2''" by simp
  let ?r = "run (\<lambda>name required. Inr []) scenario_files (AzureApimClient scenario_sdk) no_trace"
  have 2: "run_failed (events ?r)"
    by (simp add: run_def connect_def parseInputs_def say_def run_failed_def Let_def)
  with final_etag_contract[THEN conjunct1, rule_format,
        of "\<lambda>name required. Inr []" scenario_files "AzureApimClient scenario_sdk" no_trace]
  have 3: "published ''etag'' (events ?r) = Some []" by blast
  let ?cl = "AzureApimClient succeeding_sdk test_config"
  let ?ps = "[scenario_doc1, scenario_doc2]"
  obtain st where c: "connect test_inputs (AzureApimClient succeeding_sdk) (initial no_trace)
                        = (Inr (test_config, ?cl), st)"
    using succeeding_connect[of "initial no_trace"] by (metis prod.collapse)
  have mp: "policyManifestPath test_config = None" by (simp add: test_config_def)
  obtain lines where d: "discoverPolicies scenario_files (policyManifestPath test_config) ''.''
                           = (?ps, lines)"
    unfolding mp using scenario_discovery by (metis prod.collapse)
  obtain lines' where v: "validatePolicies ?ps = (True, lines')"
    using scenario_validation by (metis prod.collapse)
  have ne: "?ps \<noteq> []" by simp
  have t: "spec_lastEtag (call_results ?cl ?ps (client_state st)) = ''etag-of-api2''"
    unfolding succeeding_results by (simp add: spec_lastEtag_def applied_tokens_def truthy_def)
  from final_etag_contract[THEN conjunct2, THEN conjunct2, THEN conjunct2, THEN conjunct2,
      rule_format, of test_inputs "AzureApimClient succeeding_sdk" no_trace test_config ?cl st
      scenario_files ?ps lines lines'] c d ne v
  have 4: "outcomes (run test_inputs scenario_files (AzureApimClient succeeding_sdk) no_trace)
             = call_results ?cl ?ps (client_state st)"
    and 5: "published ''etag'' (events (run test_inputs scenario_files
                                         (AzureApimClient succeeding_sdk) no_trace))
             = Some (spec_lastEtag (call_results ?cl ?ps (client_state st)))"
    by blast+
  from 1 2 3 4[unfolded succeeding_results] 5[unfolded t] show ?thesis by blast
qed

section \<open>A run that discovers nothing\<close>

lemma run_nothing_summary:
  assumes c: "connect gi mk (initial c0) = (Inr (config, cl), st)"
    and d: "discoverPolicies e (policyManifestPath config) ''.'' = ([], lines)"
  shows "\<not> run_failed (events (run gi e mk c0))"
    and "update_calls (events (run gi e mk c0)) = []"
    and "published ''etag'' (events (run gi e mk c0)) = Some []"
    and "Log Warning ''No policy files found to update'' \<in> set (events (run gi e mk c0))"
    and "outcomes (run gi e mk c0) = []"
proof -
  note p0 = connect_initial[OF c]
  have dl: "list_all is_prelude lines"
    using discoverPolicies_logs[of e "policyManifestPath config" "''.''"] d
    by (simp add: is_log_prelude)
  let ?st1 = "say (Log Info ''Discovering policy files...'' # lines) st"
  have p1: "list_all is_prelude (events ?st1)" "outcomes ?st1 = []"
    using p0 dl by (simp_all add: say_simps is_prelude_def)
  note r = run_nothing_found[OF c d]
  show "\<not> run_failed (events (run gi e mk c0))"
    unfolding r say_simps(1)[of _ ?st1]
    using not_run_failed_prelude[OF p1(1)] by (simp add: run_failed_append run_failed_tails)
  show "update_calls (events (run gi e mk c0)) = []"
    unfolding r say_simps(1)[of _ ?st1]
    using is_prelude_no_update[OF p1(1)] by (simp add: update_calls_append update_calls_tails)
  show "published ''etag'' (events (run gi e mk c0)) = Some []"
    unfolding r say_simps(1)[of _ ?st1] by (simp add: published_append)
  show "Log Warning ''No policy files found to update'' \<in> set (events (run gi e mk c0))"
    unfolding r say_simps(1)[of _ ?st1] by simp
  show "outcomes (run gi e mk c0) = []"
    unfolding r say_simps(2)[of _ ?st1] using p1(2) .
qed

lemma empty_discovery: "fst (discoverPolicies (mock_files []) None ''.'') = []"
  by (simp add: discoverPolicies_def truthy_def discoverPoliciesFromDefaultStructure_def
      mock_files_def Let_def)

text \<open>
  Claim C5 as stated fails: a run that discovers no document is not reported failed.
  \<open>run\<close> tests \<open>policies.length === 0\<close> before it validates, logs a warning, publishes
  the empty etag and returns.
\<close>

theorem empty_discovery_counterexample:
  "fst (discoverPolicies (mock_files []) None ''.'') = []
   \<and> \<not> run_failed (events (run test_inputs (mock_files []) (AzureApimClient scenario_sdk)
                               no_trace))"
proof -
  let ?cl = "AzureApimClient scenario_sdk test_config"
  obtain st where c: "connect test_inputs (AzureApimClient scenario_sdk) (initial no_trace)
                        = (Inr (test_config, ?cl), st)"
    using scenario_connect[of "initial no_trace"] by (metis prod.collapse)
  have mp: "policyManifestPath test_config = None" by (simp add: test_config_def)
  obtain lines where d: "discoverPolicies (mock_files []) (policyManifestPath test_config) ''.''
                           = ([], lines)"
    unfolding mp using empty_discovery by (metis prod.collapse)
  show ?thesis using run_nothing_summary(1)[OF c d] empty_discovery by simp
qed

text \<open>
  Claim C5, amended. A run in which the discovery yields no document is not reported
  failed: it logs the warning \<open>No policy files found to update\<close>, makes no update call,
  and publishes the empty string as \<open>etag\<close>.
\<close>

theorem empty_discovery_ends_quietly:
  "\<forall>gi e (mk :: ApimConfig \<Rightarrow> 'c client) c0 (config :: ApimConfig) cl st lines.
     connect gi mk (initial c0) = (Inr (config, cl), st)
     \<and> discoverPolicies e (policyManifestPath config) ''.'' = ([], lines)
     \<longrightarrow> \<not> run_failed (events (run gi e mk c0))
         \<and> Log Warning ''No policy files found to update'' \<in> set (events (run gi e mk c0))
         \<and> update_calls (events (run gi e mk c0)) = []
         \<and> outcomes (run gi e mk c0) = []
         \<and> published ''etag'' (events (run gi e mk c0)) = Some []"
proof (intro allI impI)
  fix gi e c0 cl st lines and config :: ApimConfig and mk :: "ApimConfig \<Rightarrow> 'c client"
  assume "connect gi mk (initial c0) = (Inr (config, cl), st)
     \<and> discoverPolicies e (policyManifestPath config) ''.'' = ([], lines)"
  then have c: "connect gi mk (initial c0) = (Inr (config, cl), st)"
    and d: "discoverPolicies e (policyManifestPath config) ''.'' = ([], lines)" by blast+
  show "\<not> run_failed (events (run gi e mk c0))
         \<and> Log Warning ''No policy files found to update'' \<in> set (events (run gi e mk c0))
         \<and> update_calls (events (run gi e mk c0)) = []
         \<and> outcomes (run gi e mk c0) = []
         \<and> published ''etag'' (events (run gi e mk c0)) = Some []"
    using run_nothing_summary[OF c d] by blast
qed

theorem empty_discovery_ends_quietly_witness:
  "published ''etag'' (events (run test_inputs (mock_files []) (AzureApimClient scenario_sdk)
                                 no_trace)) = Some []
   \<and> update_calls (events (run test_inputs (mock_files []) (AzureApimClient scenario_sdk)
                                 no_trace)) = []
   \<and> Log Warning ''No policy files found to update''
       \<in> set (events (run test_inputs (mock_files []) (AzureApimClient scenario_sdk) no_trace))"
proof -
  let ?cl = "AzureApimClient scenario_sdk test_config"
  obtain st where c: "connect test_inputs (AzureApimClient scenario_sdk) (initial no_trace)
                        = (Inr (test_config, ?cl), st)"
    using scenario_connect[of "initial no_trace"] by (metis prod.collapse)
  have mp: "policyManifestPath test_config = None" by (simp add: test_config_def)
  obtain lines where d: "discoverPolicies (mock_files []) (policyManifestPath test_config) ''.''
                           = ([], lines)"
    unfolding mp using empty_discovery by (metis prod.collapse)
  from empty_discovery_ends_quietly[rule_format, OF conjI[OF c d]]
  show ?thesis by blast
qed

section \<open>The operationId of a discovered document\<close>

lemma update_call_of_None:
  assumes "operationId_matches_scope p"
  shows "update_call_of p \<noteq> UpdateOperationPolicy aid None xml"
  using assms by (auto simp: update_call_of_def operationId_matches_scope_def)

lemma sample_discovery:
  "fst (discoverPolicies sample_files None ''.'') =
     [\<lparr>filePath = ''policies/sample-api/api.xml'', apiId = ''sample-api'', operationId = None,
       scope = Api, content = ''<policies></policies>''\<rparr>,
      \<lparr>filePath = ''policies/sample-api/operations/get-users.xml'', apiId = ''sample-api'',
       operationId = Some ''get-users'', scope = Operation, content = ''<policies></policies>''\<rparr>]"
  unfolding sample_files_def by code_simp

text \<open>
  Claim C10. In every document that \<open>discoverPolicies\<close> returns, under either strategy,
  \<open>operationId\<close> is defined exactly when the scope is \<open>operation\<close> and absent exactly
  when the scope is \<open>api\<close>. So no run ever calls \<open>updateOperationPolicy\<close> with an absent
  \<open>operationId\<close>.
\<close>

theorem discovered_operationId_invariant:
  "(\<forall>e manifestPath baseDir. \<forall>pf\<in>set (fst (discoverPolicies e manifestPath baseDir)).
      (operationId pf \<noteq> None) = (scope pf = Operation)
      \<and> (operationId pf = None) = (scope pf = Api))
   \<and> (\<forall>e baseDir. \<forall>pf\<in>set (fst (discoverPoliciesFromDefaultStructure e baseDir)).
      (operationId pf \<noteq> None) = (scope pf = Operation)
      \<and> (operationId pf = None) = (scope pf = Api))
   \<and> (\<forall>e manifestPath baseDir.
      \<forall>pf\<in>set (fst (discoverPoliciesFromManifest e manifestPath baseDir)).
      (operationId pf \<noteq> None) = (scope pf = Operation)
      \<and> (operationId pf = None) = (scope pf = Api))
   \<and> (\<forall>gi e (mk :: ApimConfig \<Rightarrow> 'c client) c0 aid xml.
        UpdateOperationPolicy aid None xml \<notin> set (update_calls (events (run gi e mk c0))))"
proof (intro conjI allI ballI)
  fix e manifestPath baseDir pf
  assume "pf \<in> set (fst (discoverPolicies e manifestPath baseDir))"
  then have "operationId_matches_scope pf"
    using discoverPolicies_scope[of e manifestPath baseDir] by (simp add: list_all_iff)
  then show "(operationId pf \<noteq> None) = (scope pf = Operation)"
    and "(operationId pf = None) = (scope pf = Api)"
    unfolding operationId_matches_scope_def by blast+
next
  fix e baseDir pf
  assume "pf \<in> set (fst (discoverPoliciesFromDefaultStructure e baseDir))"
  then have "operationId_matches_scope pf"
    using discoverPoliciesFromDefaultStructure_scope[of e baseDir] by (simp add: list_all_iff)
  then show "(operationId pf \<noteq> None) = (scope pf = Operation)"
    and "(operationId pf = None) = (scope pf = Api)"
    unfolding operationId_matches_scope_def by blast+
next
  fix e manifestPath baseDir pf
  assume "pf \<in> set (fst (discoverPoliciesFromManifest e manifestPath baseDir))"
  then have "operationId_matches_scope pf"
    using discoverPoliciesFromManifest_scope[of e manifestPath baseDir] by (simp add: list_all_iff)
  then show "(operationId pf \<noteq> None) = (scope pf = Operation)"
    and "(operationId pf = None) = (scope pf = Api)"
    unfolding operationId_matches_scope_def by blast+
next
  fix gi e c0 aid xml and mk :: "ApimConfig \<Rightarrow> 'c client"
  from run_summary[of gi e mk c0] consider
    "update_calls (events (run gi e mk c0)) = []"
    | config :: ApimConfig where "update_calls (events (run gi e mk c0))
             = map update_call_of (fst (discoverPolicies e (policyManifestPath config) ''.''))"
    by blast
  then show "UpdateOperationPolicy aid None xml \<notin> set (update_calls (events (run gi e mk c0)))"
  proof cases
    case 1
    then show ?thesis by simp
  next
    case 2
    show ?thesis
    proof
      assume "UpdateOperationPolicy aid None xml \<in> set (update_calls (events (run gi e mk c0)))"
      then obtain pf where pf: "pf \<in> set (fst (discoverPolicies e (policyManifestPath config) ''.''))"
        and u: "update_call_of pf = UpdateOperationPolicy aid None xml"
        unfolding 2 by auto
      from pf have "operationId_matches_scope pf"
        using discoverPolicies_scope[of e "policyManifestPath config" "''.''"]
        by (simp add: list_all_iff)
      from update_call_of_None[OF this] u show False by blast
    qed
  qed
qed

theorem discovered_operationId_invariant_witness:
  "map operationId (fst (discoverPolicies sample_files None ''.'')) = [None, Some ''get-users'']
   \<and> map scope (fst (discoverPolicies sample_files None ''.'')) = [Api, Operation]"
proof -
  let ?b = "\<lparr>filePath = ''policies/sample-api/operations/get-users.xml'', apiId = ''sample-api'',
       operationId = Some ''get-users'', scope = Operation, content = ''<policies></policies>''\<rparr>"
  have "?b \<in> set (fst (discoverPolicies sample_files None ''.''))"
    unfolding sample_discovery by simp
  with discovered_operationId_invariant[THEN conjunct1, rule_format, of ?b sample_files None "''.''"]
  have "(operationId ?b \<noteq> None) = (scope ?b = Operation)" by blast
  then show ?thesis unfolding sample_discovery by simp
qed

end
